theory Spec2Isabelle
  imports Main "HOL-Library.Log_Nat"
begin

section \<open>The package evaluator of \<open>src/function_app.py\<close>\<close>

text \<open>
  The repository holds one function, \<open>check_package_oversized(context)\<close>. It decodes a JSON
  text, reads four fields of its \<open>arguments\<close> object, converts them with \<open>float()\<close>,
  applies five threshold rules and returns the JSON text of a dictionary. The embedding
  follows the function line by line. What belongs to the Python runtime and not to the
  repository is treated as follows.
  \<^item> \<open>json.loads\<close> and \<open>json.dumps\<close> are parameters of the outermost definition; everything
    between them is defined on the decoded value and on the dictionary handed to
    \<open>json.dumps\<close>.
  \<^item> \<open>float()\<close> of a \<open>str\<close> and the text that an f-string gives for a \<open>float\<close> are the two
    fields of a record \<open>pyfloat_lib\<close>; every theorem holds for all values of that record.
  \<^item> \<open>float()\<close> of the other values, \<open>dict.get\<close>, the comparisons of a \<open>float\<close> with an
    \<open>int\<close> literal and the addition of two \<open>float\<close>s are defined here, with the rounding of
    IEEE 754 binary64 written out.
\<close>

subsection \<open>Python floats\<close>

text \<open>
  A \<open>float\<close> is a finite value (kept as the rational it denotes), negative zero, one of the
  two infinities, or a NaN. \<open>Finite 0\<close> is \<open>0.0\<close>.
\<close>

datatype pyfloat = Finite rat | NegZero | PInf | NInf | NaN

text \<open>\<open>ilog2 a\<close> is \<open>\<lfloor>log\<^sub>2 a\<rfloor>\<close> for a positive rational \<open>a\<close>.\<close>

definition ilog2 :: "rat \<Rightarrow> int" where
  "ilog2 a =
     (let (p, d) = quotient_of a;
          k = bitlen p - bitlen d
      in if 2 powi k \<le> a then k else k - 1)"

definition round_half_even :: "rat \<Rightarrow> int" where
  "round_half_even x =
     (let f = \<lfloor>x\<rfloor>;
          r = x - of_int f
      in if r < 1 / 2 then f
         else if 1 / 2 < r then f + 1
         else if even f then f else f + 1)"

text \<open>
  Rounding of an exact value to binary64, to nearest with ties to even: 53 significant
  bits, least exponent \<open>-1022\<close> (below it the spacing stays \<open>2\<^sup>-\<^sup>1\<^sup>0\<^sup>7\<^sup>4\<close>), and an infinity
  when the rounded magnitude reaches \<open>2\<^sup>1\<^sup>0\<^sup>2\<^sup>4\<close>.
\<close>

definition round64 :: "rat \<Rightarrow> pyfloat" where
  "round64 q =
     (if q = 0 then Finite 0
      else
        let a = \<bar>q\<bar>;
            e = max (ilog2 a) (- 1022);
            u = 2 powi (e - 52);
            r = of_int (round_half_even (a / u)) * u
        in if 2 powi 1024 \<le> r then (if 0 < q then PInf else NInf)
           else if r = 0 then (if 0 < q then Finite 0 else NegZero)
           else Finite (if 0 < q then r else - r))"

text \<open>The operator \<open>+\<close> on two floats.\<close>

fun fadd :: "pyfloat \<Rightarrow> pyfloat \<Rightarrow> pyfloat" where
  "fadd NaN _ = NaN"
| "fadd _ NaN = NaN"
| "fadd PInf NInf = NaN"
| "fadd NInf PInf = NaN"
| "fadd PInf _ = PInf"
| "fadd _ PInf = PInf"
| "fadd NInf _ = NInf"
| "fadd _ NInf = NInf"
| "fadd NegZero NegZero = NegZero"
| "fadd NegZero (Finite b) = Finite b"
| "fadd (Finite a) NegZero = Finite a"
| "fadd (Finite a) (Finite b) = round64 (a + b)"

text \<open>
  Comparison of a float with an \<open>int\<close>: Python compares the exact values, and every
  comparison with a NaN is false.
\<close>

fun float_ge :: "pyfloat \<Rightarrow> int \<Rightarrow> bool" where
  "float_ge (Finite q) n = (of_int n \<le> q)"
| "float_ge NegZero n = (n \<le> 0)"
| "float_ge PInf n = True"
| "float_ge NInf n = False"
| "float_ge NaN n = False"

fun float_gt :: "pyfloat \<Rightarrow> int \<Rightarrow> bool" where
  "float_gt (Finite q) n = (of_int n < q)"
| "float_gt NegZero n = (n < 0)"
| "float_gt PInf n = True"
| "float_gt NInf n = False"
| "float_gt NaN n = False"

fun float_lt :: "pyfloat \<Rightarrow> int \<Rightarrow> bool" where
  "float_lt (Finite q) n = (q < of_int n)"
| "float_lt NegZero n = (0 < n)"
| "float_lt PInf n = False"
| "float_lt NInf n = True"
| "float_lt NaN n = False"

fun float_le :: "pyfloat \<Rightarrow> int \<Rightarrow> bool" where
  "float_le (Finite q) n = (q \<le> of_int n)"
| "float_le NegZero n = (0 \<le> n)"
| "float_le PInf n = False"
| "float_le NInf n = True"
| "float_le NaN n = False"

fun float_eq :: "pyfloat \<Rightarrow> int \<Rightarrow> bool" where
  "float_eq (Finite q) n = (q = of_int n)"
| "float_eq NegZero n = (n = 0)"
| "float_eq PInf n = False"
| "float_eq NInf n = False"
| "float_eq NaN n = False"

subsection \<open>Python values and exceptions\<close>

text \<open>The values that \<open>json.loads\<close> returns and that \<open>json.dumps\<close> takes.\<close>

datatype pyval =
    PyNone
  | PyBool bool
  | PyInt int
  | PyFloat pyfloat
  | PyStr string
  | PyList "pyval list"
  | PyDict "(string \<times> pyval) list"

text \<open>
  A raised exception is its class and the text of \<open>str(e)\<close>. \<open>OtherException\<close> stands for
  every further subclass of \<open>Exception\<close>.
\<close>

datatype exn_class =
  JSONDecodeError | ValueError | TypeError | OverflowError | AttributeError | OtherException

type_synonym raised = "exn_class \<times> string"

fun type_name :: "pyval \<Rightarrow> string" where
  "type_name PyNone = ''NoneType''"
| "type_name (PyBool _) = ''bool''"
| "type_name (PyInt _) = ''int''"
| "type_name (PyFloat _) = ''float''"
| "type_name (PyStr _) = ''str''"
| "type_name (PyList _) = ''list''"
| "type_name (PyDict _) = ''dict''"

text \<open>
  \<open>obj.get(key, default)\<close>: a dictionary returns the stored value or the default; no other
  value of the model has an attribute \<open>get\<close>.
\<close>

definition py_get :: "pyval \<Rightarrow> string \<Rightarrow> pyval \<Rightarrow> raised + pyval" where
  "py_get obj key dflt =
     (case obj of
        PyDict kvs \<Rightarrow> Inr (case map_of kvs key of Some v \<Rightarrow> v | None \<Rightarrow> dflt)
      | _ \<Rightarrow> Inl (AttributeError,
                 [CHR 0x27] @ type_name obj @ [CHR 0x27] @ '' object has no attribute ''
                 @ [CHR 0x27] @ ''get'' @ [CHR 0x27]))"

record pyfloat_lib =
  float_of_str :: "string \<Rightarrow> pyfloat option"
  float_str :: "pyfloat \<Rightarrow> string"

text \<open>
  \<open>float(v)\<close>. An \<open>int\<close> is rounded to the nearest float and raises \<open>OverflowError\<close> when that
  is out of range; a \<open>bool\<close> is an \<open>int\<close>; a \<open>str\<close> is parsed by the runtime (\<open>None\<close> of
  \<open>float_of_str\<close> is its \<open>ValueError\<close>); \<open>None\<close>, a list and a dictionary raise \<open>TypeError\<close>.
  The texts of the \<open>ValueError\<close> and of the \<open>TypeError\<close> are never read by the program and
  are left empty.
\<close>

definition float_of_int :: "int \<Rightarrow> raised + pyfloat" where
  "float_of_int n =
     (case round64 (of_int n) of
        PInf \<Rightarrow> Inl (OverflowError, ''int too large to convert to float'')
      | NInf \<Rightarrow> Inl (OverflowError, ''int too large to convert to float'')
      | x \<Rightarrow> Inr x)"

fun to_float :: "pyfloat_lib \<Rightarrow> pyval \<Rightarrow> raised + pyfloat" where
  "to_float F PyNone = Inl (TypeError, [])"
| "to_float F (PyBool b) = Inr (Finite (if b then 1 else 0))"
| "to_float F (PyInt n) = float_of_int n"
| "to_float F (PyFloat x) = Inr x"
| "to_float F (PyStr s) =
     (case float_of_str F s of None \<Rightarrow> Inl (ValueError, []) | Some x \<Rightarrow> Inr x)"
| "to_float F (PyList _) = Inl (TypeError, [])"
| "to_float F (PyDict _) = Inl (TypeError, [])"

subsection \<open>The function \<open>check_package_oversized\<close>\<close>

text \<open>
  Lines 60 to 65: \<open>content.get("arguments", {})\<close>, then the four \<open>args.get(key, 0)\<close>. The
  first call of \<open>get\<close> on a value that is no dictionary raises \<open>AttributeError\<close>.
\<close>

definition raw_fields :: "pyval \<Rightarrow> raised + (pyval \<times> pyval \<times> pyval \<times> pyval)" where
  "raw_fields content =
     (case py_get content ''arguments'' (PyDict []) of
        Inl e \<Rightarrow> Inl e
      | Inr args \<Rightarrow>
     (case py_get args ''length'' (PyInt 0) of
        Inl e \<Rightarrow> Inl e
      | Inr len \<Rightarrow>
     (case py_get args ''width'' (PyInt 0) of
        Inl e \<Rightarrow> Inl e
      | Inr width \<Rightarrow>
     (case py_get args ''height'' (PyInt 0) of
        Inl e \<Rightarrow> Inl e
      | Inr height \<Rightarrow>
     (case py_get args ''weight'' (PyInt 0) of
        Inl e \<Rightarrow> Inl e
      | Inr weight \<Rightarrow> Inr (len, width, height, weight))))))"

text \<open>
  Lines 69 to 72: the four calls of \<open>float()\<close>, in the order length, width, height,
  weight; the first one that raises ends the block.
\<close>

definition coerce ::
  "pyfloat_lib \<Rightarrow> pyval \<times> pyval \<times> pyval \<times> pyval \<Rightarrow>
     raised + (pyfloat \<times> pyfloat \<times> pyfloat \<times> pyfloat)" where
  "coerce F raws =
     (case raws of (len, width, height, weight) \<Rightarrow>
     (case to_float F len of
        Inl e \<Rightarrow> Inl e
      | Inr len' \<Rightarrow>
     (case to_float F width of
        Inl e \<Rightarrow> Inl e
      | Inr width' \<Rightarrow>
     (case to_float F height of
        Inl e \<Rightarrow> Inl e
      | Inr height' \<Rightarrow>
     (case to_float F weight of
        Inl e \<Rightarrow> Inl e
      | Inr weight' \<Rightarrow> Inr (len', width', height', weight'))))))"

text \<open>The five f-strings of lines 86, 91, 95, 99 and 105.\<close>

definition weight_reason :: "pyfloat_lib \<Rightarrow> pyfloat \<Rightarrow> string" where
  "weight_reason F weight = ''Weight ('' @ float_str F weight @ '') is >= 5000 grams''"

definition length_reason :: "pyfloat_lib \<Rightarrow> pyfloat \<Rightarrow> string" where
  "length_reason F len = ''Length ('' @ float_str F len @ '') is > 60 inches''"

definition width_reason :: "pyfloat_lib \<Rightarrow> pyfloat \<Rightarrow> string" where
  "width_reason F width = ''Width ('' @ float_str F width @ '') is > 60 inches''"

definition height_reason :: "pyfloat_lib \<Rightarrow> pyfloat \<Rightarrow> string" where
  "height_reason F height = ''Height ('' @ float_str F height @ '') is > 60 inches''"

definition total_reason :: "pyfloat_lib \<Rightarrow> pyfloat \<Rightarrow> string" where
  "total_reason F total_dimensions =
     ''Total dimensions ('' @ float_str F total_dimensions @ '') is > 150 inches''"

definition default_reason :: string where
  "default_reason = ''Package meets all size and weight requirements''"

text \<open>
  Lines 80 to 105: the two local variables \<open>is_oversized\<close> and \<open>reasons\<close> are threaded
  through the five \<open>if\<close> statements; \<open>total_dimensions\<close> is computed before the last one.
\<close>

definition check_rules ::
  "pyfloat_lib \<Rightarrow> pyfloat \<Rightarrow> pyfloat \<Rightarrow> pyfloat \<Rightarrow> pyfloat \<Rightarrow> bool \<times> string list \<times> pyfloat" where
  "check_rules F len width height weight =
     (let reasons = [];
          is_oversized = False;
          (is_oversized, reasons) =
            (if float_ge weight 5000
             then (True, reasons @ [weight_reason F weight]) else (is_oversized, reasons));
          (is_oversized, reasons) =
            (if float_gt len 60
             then (True, reasons @ [length_reason F len]) else (is_oversized, reasons));
          (is_oversized, reasons) =
            (if float_gt width 60
             then (True, reasons @ [width_reason F width]) else (is_oversized, reasons));
          (is_oversized, reasons) =
            (if float_gt height 60
             then (True, reasons @ [height_reason F height]) else (is_oversized, reasons));
          total_dimensions = fadd (fadd len width) height;
          (is_oversized, reasons) =
            (if float_gt total_dimensions 150
             then (True, reasons @ [total_reason F total_dimensions])
             else (is_oversized, reasons))
      in (is_oversized, reasons, total_dimensions))"

text \<open>Lines 108 to 116: the dictionary \<open>result\<close>.\<close>

definition evaluate :: "pyfloat_lib \<Rightarrow> pyfloat \<Rightarrow> pyfloat \<Rightarrow> pyfloat \<Rightarrow> pyfloat \<Rightarrow> pyval" where
  "evaluate F len width height weight =
     (case check_rules F len width height weight of
        (is_oversized, reasons, total_dimensions) \<Rightarrow>
          PyDict
            [(''oversized'', PyBool is_oversized),
             (''length'', PyFloat len),
             (''width'', PyFloat width),
             (''height'', PyFloat height),
             (''weight'', PyFloat weight),
             (''total_dimensions'', PyFloat total_dimensions),
             (''reasoning'',
                PyList (map PyStr (if is_oversized then reasons else [default_reason])))])"

text \<open>The dictionary of the three \<open>except\<close> branches (lines 74, 122 and 128).\<close>

definition error_payload :: "string \<Rightarrow> pyval" where
  "error_payload msg = PyDict [(''oversized'', PyBool False), (''error'', PyStr msg)]"

definition non_numeric_msg :: string where
  "non_numeric_msg = ''Invalid input: All dimensions and weight must be numeric values.''"

definition invalid_json_msg :: string where
  "invalid_json_msg = ''Invalid JSON format in context''"

text \<open>
  The log of the \<open>logging\<close> module is a list of records. The record of line 118 keeps the
  dictionary that its f-string formats, next to the text before it.
\<close>

datatype log_record = LogInfo string pyval | LogError string

text \<open>
  Lines 60 to 119, the body of the outer \<open>try\<close> after \<open>json.loads\<close> has returned \<open>content\<close>.
  The inner \<open>except\<close> catches \<open>ValueError\<close> and \<open>TypeError\<close> only; any other exception
  leaves the body.
\<close>

definition try_body ::
  "pyfloat_lib \<Rightarrow> pyval \<Rightarrow> log_record list \<Rightarrow> raised + (pyval \<times> log_record list)" where
  "try_body F content logs =
     (case raw_fields content of
        Inl e \<Rightarrow> Inl e
      | Inr raws \<Rightarrow>
     (case coerce F raws of
        Inl (cls, msg) \<Rightarrow>
          if cls = ValueError \<or> cls = TypeError
          then Inr (error_payload non_numeric_msg, logs)
          else Inl (cls, msg)
      | Inr (len, width, height, weight) \<Rightarrow>
          let result = evaluate F len width height weight
          in Inr (result, logs @ [LogInfo ''Package check result: '' result])))"

text \<open>Lines 121 to 131: the two handlers of the outer \<open>try\<close>.\<close>

definition handle :: "raised \<Rightarrow> log_record list \<Rightarrow> pyval \<times> log_record list" where
  "handle e logs =
     (case e of (cls, msg) \<Rightarrow>
        if cls = JSONDecodeError then (error_payload invalid_json_msg, logs)
        else (error_payload (''Error processing package check: '' @ msg),
              logs @ [LogError (''Error checking package: '' @ msg)]))"

text \<open>
  The function between \<open>json.loads\<close> and \<open>json.dumps\<close>: \<open>loaded\<close> is what \<open>json.loads(context)\<close>
  returned or raised, the first component of the result is the dictionary that is handed to
  \<open>json.dumps\<close>.
\<close>

definition check_package_payload ::
  "pyfloat_lib \<Rightarrow> raised + pyval \<Rightarrow> log_record list \<Rightarrow> pyval \<times> log_record list" where
  "check_package_payload F loaded logs =
     (case loaded of
        Inl e \<Rightarrow> handle e logs
      | Inr content \<Rightarrow>
          (case try_body F content logs of
             Inl e \<Rightarrow> handle e logs
           | Inr r \<Rightarrow> r))"

definition check_package_oversized ::
  "(string \<Rightarrow> raised + pyval) \<Rightarrow> (pyval \<Rightarrow> string) \<Rightarrow> pyfloat_lib \<Rightarrow>
     string \<Rightarrow> log_record list \<Rightarrow> string \<times> log_record list" where
  "check_package_oversized json_loads json_dumps F context logs =
     (case check_package_payload F (json_loads context) logs of
        (payload, logs') \<Rightarrow> (json_dumps payload, logs'))"

subsection \<open>Reading a returned dictionary\<close>

definition field :: "pyval \<Rightarrow> string \<Rightarrow> pyval option" where
  "field p k = (case p of PyDict kvs \<Rightarrow> map_of kvs k | _ \<Rightarrow> None)"

definition keys :: "pyval \<Rightarrow> string list" where
  "keys p = (case p of PyDict kvs \<Rightarrow> map fst kvs | _ \<Rightarrow> [])"

text \<open>
  The two shapes of section 6 of the specification. A result has the seven keys of a
  success, in the order of line 108; an error is a dictionary with a key \<open>error\<close>.
\<close>

definition result_keys :: "string list" where
  "result_keys =
     [''oversized'', ''length'', ''width'', ''height'', ''weight'', ''total_dimensions'',
      ''reasoning'']"

definition is_evaluation_result :: "pyval \<Rightarrow> bool" where
  "is_evaluation_result p = (keys p = result_keys)"

definition is_evaluation_error :: "pyval \<Rightarrow> bool" where
  "is_evaluation_error p = (field p ''error'' \<noteq> None)"

subsection \<open>The rules as the specification lists them\<close>

text \<open>
  Section 4.1, step 5 of the specification: five rules in a fixed order, each with its
  condition and its reason. These definitions follow the specification's words; the
  theorems compare them with \<open>check_rules\<close>, which follows the code.
\<close>

datatype rule = WeightRule | LengthRule | WidthRule | HeightRule | TotalRule

definition rule_order :: "rule list" where
  "rule_order = [WeightRule, LengthRule, WidthRule, HeightRule, TotalRule]"

fun triggers :: "pyfloat \<Rightarrow> pyfloat \<Rightarrow> pyfloat \<Rightarrow> pyfloat \<Rightarrow> rule \<Rightarrow> bool" where
  "triggers len width height weight WeightRule = float_ge weight 5000"
| "triggers len width height weight LengthRule = float_gt len 60"
| "triggers len width height weight WidthRule = float_gt width 60"
| "triggers len width height weight HeightRule = float_gt height 60"
| "triggers len width height weight TotalRule = float_gt (fadd (fadd len width) height) 150"

fun rule_message ::
  "pyfloat_lib \<Rightarrow> pyfloat \<Rightarrow> pyfloat \<Rightarrow> pyfloat \<Rightarrow> pyfloat \<Rightarrow> rule \<Rightarrow> string" where
  "rule_message F len width height weight WeightRule =
     ''Weight ('' @ float_str F weight @ '') is >= 5000 grams''"
| "rule_message F len width height weight LengthRule =
     ''Length ('' @ float_str F len @ '') is > 60 inches''"
| "rule_message F len width height weight WidthRule =
     ''Width ('' @ float_str F width @ '') is > 60 inches''"
| "rule_message F len width height weight HeightRule =
     ''Height ('' @ float_str F height @ '') is > 60 inches''"
| "rule_message F len width height weight TotalRule =
     ''Total dimensions ('' @ float_str F (fadd (fadd len width) height)
     @ '') is > 150 inches''"

text \<open>
  The raw value of a field of the \<open>arguments\<close> dictionary, with the default of
  \<open>args.get(key, 0)\<close>, and the two ways in which \<open>float()\<close> fails: caught by the inner
  \<open>except (ValueError, TypeError)\<close>, or an \<open>OverflowError\<close>.
\<close>

definition field_names :: "string list" where
  "field_names = [''length'', ''width'', ''height'', ''weight'']"

definition raw_field :: "(string \<times> pyval) list \<Rightarrow> string \<Rightarrow> pyval" where
  "raw_field kvs key = (case map_of kvs key of Some v \<Rightarrow> v | None \<Rightarrow> PyInt 0)"

definition guarded_failure :: "raised + 'a \<Rightarrow> bool" where
  "guarded_failure r =
     (case r of Inl (cls, msg) \<Rightarrow> cls = ValueError \<or> cls = TypeError | Inr x \<Rightarrow> False)"

definition overflows :: "raised + 'a \<Rightarrow> bool" where
  "overflows r = (case r of Inl (cls, msg) \<Rightarrow> cls = OverflowError | Inr x \<Rightarrow> False)"

text \<open>
  An integer beyond the range of a float: the \<open>int\<close> that the JSON text of a 1 and 400
  zeros decodes to.
\<close>

definition huge_int :: int where
  "huge_int = 10 ^ 400"

text \<open>
  The rationals that are values of a finite float: at most 53 significant bits, a binary
  exponent of at least \<open>-1074\<close>, and a magnitude below \<open>2\<^sup>1\<^sup>0\<^sup>2\<^sup>4\<close>.
\<close>

definition binary64 :: "rat \<Rightarrow> bool" where
  "binary64 q \<longleftrightarrow>
     (\<exists>m k. q = of_int m * 2 powi k \<and> \<bar>m\<bar> < 2 ^ 53 \<and> - 1074 \<le> k \<and> \<bar>q\<bar> < 2 powi 1024)"

section \<open>Properties\<close>

subsection \<open>Rounding\<close>

lemma bitlen_powi_bounds:
  assumes "0 < (p::int)"
  shows "2 powi (bitlen p - 1) \<le> (of_int p :: rat)" and "(of_int p :: rat) < 2 powi (bitlen p)"
proof -
  from bitlen_bounds[OF assms] have a: "2 ^ nat (bitlen p - 1) \<le> p" and b: "p < 2 ^ nat (bitlen p)"
    by auto
  have ge1: "1 \<le> bitlen p" using assms by (auto simp: bitlen_alt_def)
  have "(of_int (2 ^ nat (bitlen p - 1)) :: rat) \<le> of_int p" using a by (simp only: of_int_le_iff)
  then show "2 powi (bitlen p - 1) \<le> (of_int p :: rat)"
    using ge1 by (simp add: power_int_def)
  have "(of_int p :: rat) < of_int (2 ^ nat (bitlen p))" using b by (simp only: of_int_less_iff)
  then show "(of_int p :: rat) < 2 powi (bitlen p)"
    using ge1 by (simp add: power_int_def)
qed

text \<open>\<open>ilog2\<close> is the floor of the binary logarithm.\<close>

lemma ilog2_bounds:
  assumes "0 < a"
  shows "2 powi (ilog2 a) \<le> a" and "a < 2 powi (ilog2 a + 1)"
proof -
  obtain p d where pd: "quotient_of a = (p, d)" by (cases "quotient_of a")
  then have d: "0 < d" and a: "a = of_int p / of_int d"
    by (simp_all add: quotient_of_denom_pos quotient_of_div)
  have p: "0 < p" using assms a d by (simp add: zero_less_divide_iff)
  let ?k = "bitlen p - bitlen d"
  have up: "a < 2 powi (?k + 1)"
  proof -
    have "a < 2 powi (bitlen p) / of_int d"
      using bitlen_powi_bounds(2)[OF p] d by (simp add: a divide_strict_right_mono)
    also have "\<dots> \<le> 2 powi (bitlen p) / 2 powi (bitlen d - 1)"
      using bitlen_powi_bounds(1)[OF d] d by (intro divide_left_mono) (auto intro!: mult_pos_pos)
    also have "\<dots> = 2 powi (?k + 1)"
      by (simp add: power_int_diff power_int_add)
    finally show ?thesis .
  qed
  have lo: "2 powi (?k - 1) \<le> a"
  proof -
    have "2 powi (?k - 1) = 2 powi (bitlen p - 1) / (2 powi (bitlen d) :: rat)"
      by (simp add: power_int_diff)
    also have "\<dots> \<le> of_int p / 2 powi (bitlen d)"
      using bitlen_powi_bounds(1)[OF p] by (intro divide_right_mono) auto
    also have "\<dots> \<le> of_int p / of_int d"
      using bitlen_powi_bounds(2)[OF d] p d by (intro divide_left_mono) (auto intro!: mult_pos_pos)
    finally show ?thesis by (simp add: a)
  qed
  show "2 powi (ilog2 a) \<le> a"
    using lo by (simp add: ilog2_def pd Let_def)
  show "a < 2 powi (ilog2 a + 1)"
    using up by (auto simp add: ilog2_def pd Let_def not_le)
qed

lemma ilog2_range:
  assumes "0 < a" and "2 powi lo \<le> a" and "a < 2 powi hi"
  shows "lo \<le> ilog2 a" and "ilog2 a < hi"
proof -
  have "(2::rat) powi lo < 2 powi (ilog2 a + 1)"
    using assms(2) ilog2_bounds(2)[OF assms(1)] by simp
  then have "lo < ilog2 a + 1"
    by (metis linorder_not_less one_le_numeral power_int_increasing)
  then show "lo \<le> ilog2 a" by simp
  have "(2::rat) powi (ilog2 a) < 2 powi hi"
    using assms(3) ilog2_bounds(1)[OF assms(1)] by simp
  then show "ilog2 a < hi"
    by (metis linorder_not_less one_le_numeral power_int_increasing)
qed

lemma round_half_even_of_int: "round_half_even (of_int m) = m"
  by (simp add: round_half_even_def)

lemma round_half_even_ge_floor: "\<lfloor>x\<rfloor> \<le> round_half_even x"
  by (simp add: round_half_even_def Let_def)

text \<open>An integer below \<open>2\<^sup>5\<^sup>3\<close> in magnitude is a float: rounding returns it unchanged.\<close>

lemma round64_of_int:
  assumes "\<bar>n\<bar> < 2 ^ 53"
  shows "round64 (of_int n) = Finite (of_int n)"
proof (cases "n = 0")
  case True
  then show ?thesis by (simp add: round64_def)
next
  case False
  define a :: rat where "a = \<bar>of_int n\<bar>"
  define e where "e = ilog2 a"
  have a_int: "a = of_int \<bar>n\<bar>" by (simp add: a_def)
  have a1: "1 \<le> a" using False by (simp add: a_def)
  then have apos: "0 < a" by simp
  have "a < of_int (2 ^ 53)" unfolding a_int using assms by (simp only: of_int_less_iff)
  then have a53: "a < 2 powi 53" by simp
  have e: "0 \<le> e" "e < 53"
    using ilog2_range[OF apos _ a53, of 0] a1 by (simp_all add: e_def)
  have m: "max e (- 1022) = e" using e by simp
  define u :: rat where "u = 2 powi (e - 52)"
  have u: "u = 1 / 2 ^ nat (52 - e)"
    using e by (simp add: u_def power_int_def field_simps)
  have au: "a / u = of_int (\<bar>n\<bar> * 2 ^ nat (52 - e))"
    by (simp add: u a_int)
  have r: "of_int (round_half_even (a / u)) * u = a"
    unfolding au round_half_even_of_int by (simp add: u a_int)
  have big: "\<not> 2 powi 1024 \<le> a"
  proof -
    have "(2::rat) powi 53 \<le> 2 powi 1024" by (intro power_int_increasing) simp_all
    with a53 show ?thesis by simp
  qed
  have "round64 (of_int n) = Finite (if 0 < (of_int n :: rat) then a else - a)"
    using False apos big r
    by (simp add: round64_def Let_def a_def[symmetric] e_def[symmetric] m u_def[symmetric])
  also have "(if 0 < (of_int n :: rat) then a else - a) = of_int n"
    by (simp add: a_def)
  finally show ?thesis .
qed

text \<open>A value of magnitude \<open>2\<^sup>1\<^sup>0\<^sup>2\<^sup>4\<close> or more rounds to an infinity.\<close>

lemma round64_overflow:
  assumes "2 powi 1024 \<le> \<bar>q\<bar>"
  shows "round64 q = (if 0 < q then PInf else NInf)"
proof -
  define a :: rat where "a = \<bar>q\<bar>"
  define e where "e = ilog2 a"
  have "(0::rat) < 2 powi 1024" by simp
  then have apos: "0 < a" using assms by (simp add: a_def)
  then have q0: "q \<noteq> 0" by (auto simp: a_def)
  have e: "1024 \<le> e"
    using ilog2_range(1)[OF apos, of 1024 "ilog2 a + 1"] assms ilog2_bounds(2)[OF apos]
    by (simp add: a_def e_def)
  have m: "max e (- 1022) = e" using e by simp
  define u :: rat where "u = 2 powi (e - 52)"
  have upos: "0 < u" by (simp add: u_def)
  have "2 powi e \<le> a" using ilog2_bounds(1)[OF apos] by (simp add: e_def)
  then have "2 powi e / u \<le> a / u" using upos by (simp add: divide_right_mono)
  moreover have "2 powi e / u = (2::rat) powi 52"
    by (simp add: u_def power_int_diff)
  ultimately have "of_int (2 ^ 52) \<le> a / u" by simp
  then have "2 ^ 52 \<le> \<lfloor>a / u\<rfloor>" by (simp only: le_floor_iff)
  then have "2 ^ 52 \<le> round_half_even (a / u)"
    using round_half_even_ge_floor[of "a / u"] by linarith
  then have "(of_int (2 ^ 52) :: rat) \<le> of_int (round_half_even (a / u))"
    by (simp only: of_int_le_iff)
  then have "2 powi 52 * u \<le> of_int (round_half_even (a / u)) * u"
    using upos by (simp add: mult_right_mono)
  moreover have "2 powi 52 * u = (2::rat) powi e"
    by (simp add: u_def power_int_diff)
  moreover have "(2::rat) powi 1024 \<le> 2 powi e"
    using e by (intro power_int_increasing) simp_all
  ultimately have "2 powi 1024 \<le> of_int (round_half_even (a / u)) * u" by simp
  then show ?thesis
    using q0 by (simp add: round64_def Let_def a_def[symmetric] e_def[symmetric] m u_def[symmetric])
qed

lemma float_of_int_small:
  assumes "\<bar>n\<bar> < 2 ^ 53"
  shows "float_of_int n = Inr (Finite (of_int n))"
  by (simp add: float_of_int_def round64_of_int[OF assms])

lemma float_of_int_overflow:
  assumes "2 ^ 1024 \<le> \<bar>n\<bar>"
  shows "float_of_int n = Inl (OverflowError, ''int too large to convert to float'')"
proof -
  have "(of_int (2 ^ 1024) :: rat) \<le> of_int \<bar>n\<bar>" using assms by (simp only: of_int_le_iff)
  then have "2 powi 1024 \<le> \<bar>of_int n :: rat\<bar>" by simp
  from round64_overflow[OF this] show ?thesis by (simp add: float_of_int_def)
qed

text \<open>The threshold of the overflow, exactly.\<close>

lemma round_half_even_le:
  assumes "x < of_int n + 1 / 2"
  shows "round_half_even x \<le> n"
proof -
  define f where "f = \<lfloor>x\<rfloor>"
  have fx: "of_int f \<le> x" "x < of_int f + 1" unfolding f_def by linarith+
  have "of_int f < (of_int n :: rat) + 1 / 2" using fx(1) assms by linarith
  then have "(of_int f :: rat) < of_int (n + 1)" by simp
  then have fn: "f \<le> n" by (simp only: of_int_less_iff)
  show ?thesis
  proof (cases "x - of_int f < 1 / 2")
    case True
    then show ?thesis using fn by (simp add: round_half_even_def f_def[symmetric])
  next
    case False
    then have "of_int f + 1 / 2 \<le> x" by simp
    with assms have "(of_int f :: rat) < of_int n" by linarith
    then have "f < n" by (simp only: of_int_less_iff)
    then show ?thesis by (simp add: round_half_even_def f_def[symmetric] Let_def)
  qed
qed

lemma round_half_even_ge:
  assumes "of_int n - 1 / 2 \<le> x" and "even n"
  shows "n \<le> round_half_even x"
proof -
  define f where "f = \<lfloor>x\<rfloor>"
  have fx: "of_int f \<le> x" "x < of_int f + 1" unfolding f_def by linarith+
  have "(of_int n :: rat) - 1 / 2 < of_int f + 1" using fx(2) assms(1) by linarith
  then have "(of_int (n - 1) :: rat) < of_int (f + 1)" by simp
  then have fn: "n - 1 \<le> f" by (simp only: of_int_less_iff)
  show ?thesis
  proof (cases "n \<le> f")
    case True
    then show ?thesis using round_half_even_ge_floor[of x] by (simp add: f_def)
  next
    case False
    with fn have f: "f = n - 1" by simp
    then have "odd f" using assms(2) by simp
    moreover have "\<not> x - of_int f < 1 / 2" using assms(1) f by simp
    ultimately show ?thesis using f
      by (simp add: round_half_even_def f_def[symmetric] Let_def)
  qed
qed

lemma round64_finite:
  assumes "\<bar>q\<bar> < 2 powi 1024 - 2 powi 970"
  shows "round64 q \<noteq> PInf \<and> round64 q \<noteq> NInf"
proof (cases "q = 0")
  case True
  then show ?thesis by (simp add: round64_def)
next
  case False
  define a :: rat where "a = \<bar>q\<bar>"
  define e where "e = max (ilog2 a) (- 1022)"
  define u :: rat where "u = 2 powi (e - 52)"
  define m where "m = round_half_even (a / u)"
  have apos: "0 < a" using False by (simp add: a_def)
  have "(0::rat) < 2 powi 970" by simp
  with assms have a_lt: "a < 2 powi 1024" unfolding a_def by linarith
  have "ilog2 a < 1024" by (rule ilog2_range(2)[OF apos ilog2_bounds(1)[OF apos] a_lt])
  then have e_le: "e \<le> 1023" by (simp add: e_def)
  have il: "ilog2 a \<le> e" by (simp add: e_def)
  have upos: "0 < u" by (simp add: u_def)
  have key: "of_int m * u < 2 powi 1024"
  proof (cases "e = 1023")
    case True
    have u971: "u = 2 powi 971" by (simp add: u_def True)
    have "a / u < (2 powi 1024 - 2 powi 970) / u"
      using assms upos by (simp add: a_def divide_strict_right_mono)
    also have "\<dots> = 2 powi 1024 / 2 powi 971 - 2 powi 970 / (2 powi 971 :: rat)"
      by (simp only: u971 diff_divide_distrib)
    also have "\<dots> = 2 powi (1024 - 971) - (2 powi (970 - 971) :: rat)"
      by (simp only: power_int_diff[of "2::rat", symmetric, simplified])
    also have "\<dots> = of_int (2 ^ 53 - 1) + 1 / 2"
      by (simp add: power_int_def)
    finally have "m \<le> 2 ^ 53 - 1" unfolding m_def by (rule round_half_even_le)
    then have "(of_int m :: rat) \<le> of_int (2 ^ 53 - 1)" by (simp only: of_int_le_iff)
    also have "\<dots> < 2 powi 53" by simp
    finally have "of_int m * u < 2 powi 53 * u" using upos by (simp only: mult_strict_right_mono)
    also have "\<dots> = 2 powi (53 + 971)" by (simp only: u971 power_int_add[of "2::rat", simplified])
    finally show ?thesis by simp
  next
    case False
    with e_le have e1022: "e + 1 \<le> 1023" by simp
    have "a < 2 powi (ilog2 a + 1)" by (rule ilog2_bounds(2)[OF apos])
    also have "\<dots> \<le> 2 powi (e + 1)" using il by (intro power_int_increasing) simp_all
    finally have "a / u < 2 powi (e + 1) / u" using upos by (simp add: divide_strict_right_mono)
    also have "\<dots> = 2 powi ((e + 1) - (e - 52))"
      unfolding u_def by (simp only: power_int_diff[of "2::rat", symmetric, simplified])
    also have "\<dots> = of_int (2 ^ 53)" by simp
    finally have lt: "a / u < of_int (2 ^ 53)" .
    have "(of_int (2 ^ 53) :: rat) \<le> of_int (2 ^ 53) + 1 / 2" by simp
    with lt have "a / u < of_int (2 ^ 53) + 1 / 2" by (rule less_le_trans)
    then have "m \<le> 2 ^ 53" unfolding m_def by (rule round_half_even_le)
    then have "(of_int m :: rat) \<le> of_int (2 ^ 53)" by (simp only: of_int_le_iff)
    then have "of_int m * u \<le> of_int (2 ^ 53) * u" using upos by (simp only: mult_right_mono less_imp_le)
    also have "\<dots> = 2 powi 53 * 2 powi (e - 52)" by (simp add: u_def)
    also have "\<dots> = 2 powi (53 + (e - 52))" by (simp only: power_int_add[of "2::rat", simplified])
    also have "\<dots> \<le> 2 powi 1023" using e1022 by (intro power_int_increasing) simp_all
    also have "\<dots> < (2 powi 1024 :: rat)" by (intro power_int_strict_increasing) simp_all
    finally show ?thesis .
  qed
  then have "\<not> 2 powi 1024 \<le> of_int m * u" by simp
  then show ?thesis
    using False
    by (simp add: round64_def Let_def a_def[symmetric] e_def[symmetric] u_def[symmetric]
        m_def[symmetric])
qed

lemma round64_overflow_threshold:
  assumes "2 powi 1024 - 2 powi 970 \<le> \<bar>q\<bar>"
  shows "round64 q = (if 0 < q then PInf else NInf)"
proof (cases "2 powi 1024 \<le> \<bar>q\<bar>")
  case True
  then show ?thesis by (rule round64_overflow)
next
  case False
  define a :: rat where "a = \<bar>q\<bar>"
  define e where "e = max (ilog2 a) (- 1022)"
  define u :: rat where "u = 2 powi (e - 52)"
  define m where "m = round_half_even (a / u)"
  have a_lt: "a < 2 powi 1024" using False by (simp add: a_def)
  have "(2::rat) powi 970 \<le> 2 powi 1023" by (intro power_int_increasing) simp_all
  moreover have "(2::rat) powi 1024 = 2 powi 1023 + 2 powi 1023"
    using power_int_add[of "2::rat" 1023 1] by simp
  ultimately have "(2::rat) powi 1023 \<le> 2 powi 1024 - 2 powi 970" by linarith
  with assms have a_ge: "2 powi 1023 \<le> a" unfolding a_def by linarith
  have "(0::rat) < 2 powi 1023" by simp
  with a_ge have apos: "0 < a" by linarith
  then have q0: "q \<noteq> 0" by (auto simp: a_def)
  have "1023 \<le> ilog2 a" "ilog2 a < 1024"
    using ilog2_range[OF apos a_ge a_lt] by simp_all
  then have e: "e = 1023" by (simp add: e_def)
  have u971: "u = 2 powi 971" by (simp add: u_def e)
  have upos: "0 < u" by (simp add: u_def)
  have "of_int (2 ^ 53) - 1 / 2 = 2 powi (1024 - 971) - (2 powi (970 - 971) :: rat)"
    by (simp add: power_int_def)
  also have "\<dots> = 2 powi 1024 / 2 powi 971 - 2 powi 970 / (2 powi 971 :: rat)"
    by (simp only: power_int_diff[of "2::rat", symmetric, simplified])
  also have "\<dots> = (2 powi 1024 - 2 powi 970) / u"
    by (simp only: u971 diff_divide_distrib)
  also have "\<dots> \<le> a / u"
    using assms upos by (simp add: a_def divide_right_mono)
  finally have "2 ^ 53 \<le> m" unfolding m_def by (rule round_half_even_ge) simp
  then have "(of_int (2 ^ 53) :: rat) \<le> of_int m" by (simp only: of_int_le_iff)
  then have "of_int (2 ^ 53) * u \<le> of_int m * u"
    using upos by (simp only: mult_right_mono less_imp_le)
  moreover have "of_int (2 ^ 53) * u = 2 powi 53 * 2 powi 971" by (simp add: u971)
  moreover have "2 powi 53 * 2 powi 971 = (2 powi (53 + 971) :: rat)"
    by (simp only: power_int_add[of "2::rat", simplified])
  ultimately have "2 powi 1024 \<le> of_int m * u" by simp
  then show ?thesis
    using q0
    by (simp add: round64_def Let_def a_def[symmetric] e_def[symmetric] u_def[symmetric]
        m_def[symmetric])
qed

text \<open>
  \<open>float(n)\<close> raises \<open>OverflowError\<close> exactly from \<open>2\<^sup>1\<^sup>0\<^sup>2\<^sup>4 - 2\<^sup>9\<^sup>7\<^sup>0\<close> on, the midpoint between
  the largest float and \<open>2\<^sup>1\<^sup>0\<^sup>2\<^sup>4\<close>.
\<close>

lemma float_of_int_overflows_iff:
  "overflows (float_of_int n) \<longleftrightarrow> 2 ^ 1024 - 2 ^ 970 \<le> \<bar>n\<bar>"
proof -
  have t: "(of_int (2 ^ 1024 - 2 ^ 970) :: rat) = 2 powi 1024 - 2 powi 970" by simp
  show ?thesis
  proof (cases "2 ^ 1024 - 2 ^ 970 \<le> \<bar>n\<bar>")
    case True
    then have "(of_int (2 ^ 1024 - 2 ^ 970) :: rat) \<le> of_int \<bar>n\<bar>" by (simp only: of_int_le_iff)
    then have "2 powi 1024 - 2 powi 970 \<le> \<bar>of_int n :: rat\<bar>" by (simp only: t of_int_abs)
    from round64_overflow_threshold[OF this] True show ?thesis
      by (simp add: float_of_int_def overflows_def)
  next
    case False
    then have "\<bar>n\<bar> < 2 ^ 1024 - 2 ^ 970" by simp
    then have "(of_int \<bar>n\<bar> :: rat) < of_int (2 ^ 1024 - 2 ^ 970)" by (simp only: of_int_less_iff)
    then have "\<bar>of_int n :: rat\<bar> < 2 powi 1024 - 2 powi 970" by (simp only: t of_int_abs)
    from round64_finite[OF this] False show ?thesis
      by (auto simp add: float_of_int_def overflows_def split: pyfloat.splits)
  qed
qed

lemma to_float_overflows_iff:
  "overflows (to_float F v) \<longleftrightarrow> (\<exists>n. v = PyInt n \<and> 2 ^ 1024 - 2 ^ 970 \<le> \<bar>n\<bar>)"
  by (cases v) (simp_all add: float_of_int_overflows_iff, simp_all add: overflows_def split: option.splits)

text \<open>A JSON boolean converts: \<open>float(True)\<close> is \<open>1.0\<close>.\<close>

lemma to_float_bool: "to_float F (PyBool b) = Inr (Finite (if b then 1 else 0))"
  by simp

text \<open>The same facts in the form the simplifier uses on literals.\<close>

lemma round64_numeral:
  "numeral k < (2::int) ^ 53 \<Longrightarrow> round64 (numeral k) = Finite (numeral k)"
  using round64_of_int[of "numeral k"] by simp

lemma round64_zero: "round64 0 = Finite 0"
  by (simp add: round64_def)

lemma float_of_int_numeral:
  "numeral k < (2::int) ^ 53 \<Longrightarrow> float_of_int (numeral k) = Inr (Finite (numeral k))"
  using float_of_int_small[of "numeral k"] by simp

lemma float_of_int_zero: "float_of_int 0 = Inr (Finite 0)"
  using float_of_int_small[of 0] by simp

subsection \<open>The rules\<close>

text \<open>
  The five \<open>if\<close> statements compute the rules that trigger, in the order of the
  specification, with their reasons.
\<close>

lemma check_rules_spec:
  "check_rules F len width height weight =
     (filter (triggers len width height weight) rule_order \<noteq> [],
      map (rule_message F len width height weight)
        (filter (triggers len width height weight) rule_order),
      fadd (fadd len width) height)"
  by (simp add: check_rules_def rule_order_def weight_reason_def length_reason_def
      width_reason_def height_reason_def total_reason_def Let_def)

lemma some_rule_triggers:
  "(\<exists>r. triggers len width height weight r) =
     (filter (triggers len width height weight) rule_order \<noteq> [])"
proof -
  have "set rule_order = UNIV"
  proof -
    have "r \<in> set rule_order" for r by (cases r) (simp_all add: rule_order_def)
    then show ?thesis by auto
  qed
  then show ?thesis by (auto simp: filter_empty_conv)
qed

text \<open>When the four fields convert, the call returns the dictionary of line 108.\<close>

lemma payload_success:
  assumes "raw_fields content = Inr raws"
    and "coerce F raws = Inr (len, width, height, weight)"
  shows "check_package_payload F (Inr content) logs =
     (evaluate F len width height weight,
      logs @ [LogInfo ''Package check result: '' (evaluate F len width height weight)])"
  using assms by (simp add: check_package_payload_def try_body_def Let_def)

lemma field_evaluate_oversized:
  "field (evaluate F len width height weight) ''oversized'' =
     Some (PyBool (filter (triggers len width height weight) rule_order \<noteq> []))"
  by (simp add: evaluate_def check_rules_spec field_def)

lemma field_evaluate_reasoning:
  "field (evaluate F len width height weight) ''reasoning'' =
     Some (PyList (map PyStr
       (if filter (triggers len width height weight) rule_order = [] then [default_reason]
        else map (rule_message F len width height weight)
               (filter (triggers len width height weight) rule_order))))"
  by (simp add: evaluate_def check_rules_spec field_def)

lemma field_evaluate_total:
  "field (evaluate F len width height weight) ''total_dimensions'' =
     Some (PyFloat (fadd (fadd len width) height))"
  by (simp add: evaluate_def check_rules_spec field_def)

subsection \<open>Claims\<close>

text \<open>
  C1. For every input whose four fields convert to floats, the rules are evaluated in the
  order weight, length, width, height, total dimensions, and a reason is appended for every
  rule that triggers: \<open>oversized\<close> is true exactly when some rule triggers, and when rules
  trigger \<open>reasoning\<close> holds the messages of exactly those rules, in that order (when none
  does, it holds the default message).
\<close>

theorem rules_in_fixed_order:
  assumes "raw_fields content = Inr raws"
    and "coerce F raws = Inr (len, width, height, weight)"
  shows "let p = fst (check_package_payload F (Inr content) logs);
             fired = filter (triggers len width height weight) rule_order
         in field p ''oversized'' = Some (PyBool (\<exists>r. triggers len width height weight r)) \<and>
            field p ''reasoning'' =
              Some (PyList (map PyStr
                (if fired = [] then [default_reason]
                 else map (rule_message F len width height weight) fired)))"
  unfolding Let_def payload_success[OF assms] fst_conv some_rule_triggers
  by (simp only: field_evaluate_oversized field_evaluate_reasoning simp_thms)

theorem rules_in_fixed_order_witness:
  "\<forall>F. raw_fields (PyDict [(''arguments'', PyDict [(''length'', PyInt 70), (''weight'', PyInt 6000)])])
         = Inr (PyInt 70, PyInt 0, PyInt 0, PyInt 6000) \<and>
       coerce F (PyInt 70, PyInt 0, PyInt 0, PyInt 6000)
         = Inr (Finite 70, Finite 0, Finite 0, Finite 6000) \<and>
       field (fst (check_package_payload F
           (Inr (PyDict [(''arguments'', PyDict [(''length'', PyInt 70), (''weight'', PyInt 6000)])])) []))
         ''reasoning''
         = Some (PyList
             [PyStr (''Weight ('' @ float_str F (Finite 6000) @ '') is >= 5000 grams''),
              PyStr (''Length ('' @ float_str F (Finite 70) @ '') is > 60 inches'')]) \<and>
       field (fst (check_package_payload F
           (Inr (PyDict [(''arguments'', PyDict [(''length'', PyInt 70), (''weight'', PyInt 6000)])])) []))
         ''oversized''
         = Some (PyBool True)"
proof
  fix F :: pyfloat_lib
  let ?c = "PyDict [(''arguments'', PyDict [(''length'', PyInt 70), (''weight'', PyInt 6000)])]"
  have r: "raw_fields ?c = Inr (PyInt 70, PyInt 0, PyInt 0, PyInt 6000)"
    by (simp add: raw_fields_def py_get_def)
  have c: "coerce F (PyInt 70, PyInt 0, PyInt 0, PyInt 6000)
      = Inr (Finite 70, Finite 0, Finite 0, Finite 6000)"
    by (simp add: coerce_def float_of_int_numeral float_of_int_zero)
  have "triggers (Finite 70) (Finite 0) (Finite 0) (Finite 6000) WeightRule"
    by simp
  then have t: "\<exists>r. triggers (Finite 70) (Finite 0) (Finite 0) (Finite 6000) r" ..
  show "raw_fields ?c = Inr (PyInt 70, PyInt 0, PyInt 0, PyInt 6000) \<and>
       coerce F (PyInt 70, PyInt 0, PyInt 0, PyInt 6000)
         = Inr (Finite 70, Finite 0, Finite 0, Finite 6000) \<and>
       field (fst (check_package_payload F (Inr ?c) [])) ''reasoning''
         = Some (PyList
             [PyStr (''Weight ('' @ float_str F (Finite 6000) @ '') is >= 5000 grams''),
              PyStr (''Length ('' @ float_str F (Finite 70) @ '') is > 60 inches'')]) \<and>
       field (fst (check_package_payload F (Inr ?c) [])) ''oversized'' = Some (PyBool True)"
    using r c t rules_in_fixed_order[OF r c, of "[]"]
    by (simp add: Let_def rule_order_def round64_numeral round64_zero)
qed

lemma float_lt_not_ge: "float_lt x n \<Longrightarrow> \<not> float_ge x n"
  by (cases x) simp_all

lemma float_le_not_gt: "float_le x n \<Longrightarrow> \<not> float_gt x n"
  by (cases x) simp_all

lemma float_eq_ge: "float_eq x n \<Longrightarrow> float_ge x n"
  by (cases x) simp_all

lemma float_eq_not_gt: "float_eq x n \<Longrightarrow> \<not> float_gt x n"
  by (cases x) simp_all

lemma fired_unfold:
  "filter (triggers len width height weight) rule_order =
     (if float_ge weight 5000 then [WeightRule] else []) @
     (if float_gt len 60 then [LengthRule] else []) @
     (if float_gt width 60 then [WidthRule] else []) @
     (if float_gt height 60 then [HeightRule] else []) @
     (if float_gt (fadd (fadd len width) height) 150 then [TotalRule] else [])"
  by (simp add: rule_order_def)

lemma rule_message_neq_default: "rule_message F len width height weight r \<noteq> default_reason"
  by (cases r) (simp_all add: default_reason_def)

lemma message_of_rule:
  "rule_message F len width height weight r = ''Weight ('' @ x @ '') is >= 5000 grams''
     \<Longrightarrow> r = WeightRule"
  "rule_message F len width height weight r = ''Length ('' @ x @ '') is > 60 inches''
     \<Longrightarrow> r = LengthRule"
  "rule_message F len width height weight r = ''Width ('' @ x @ '') is > 60 inches''
     \<Longrightarrow> r = WidthRule"
  "rule_message F len width height weight r = ''Height ('' @ x @ '') is > 60 inches''
     \<Longrightarrow> r = HeightRule"
  "rule_message F len width height weight r = ''Total dimensions ('' @ x @ '') is > 150 inches''
     \<Longrightarrow> r = TotalRule"
  by (cases r; simp)+

lemma default_is_no_rule_message:
  "default_reason \<noteq> ''Weight ('' @ x @ '') is >= 5000 grams''"
  "default_reason \<noteq> ''Length ('' @ x @ '') is > 60 inches''"
  "default_reason \<noteq> ''Width ('' @ x @ '') is > 60 inches''"
  "default_reason \<noteq> ''Height ('' @ x @ '') is > 60 inches''"
  "default_reason \<noteq> ''Total dimensions ('' @ x @ '') is > 150 inches''"
  by (simp_all add: default_reason_def)

lemma payload_fields:
  assumes "raw_fields content = Inr raws"
    and "coerce F raws = Inr (len, width, height, weight)"
  shows "field (fst (check_package_payload F (Inr content) logs)) ''oversized'' =
           Some (PyBool (filter (triggers len width height weight) rule_order \<noteq> []))"
    and "field (fst (check_package_payload F (Inr content) logs)) ''reasoning'' =
           Some (PyList (map PyStr
             (if filter (triggers len width height weight) rule_order = [] then [default_reason]
              else map (rule_message F len width height weight)
                     (filter (triggers len width height weight) rule_order))))"
    and "field (fst (check_package_payload F (Inr content) logs)) ''total_dimensions'' =
           Some (PyFloat (fadd (fadd len width) height))"
  unfolding payload_success[OF assms] fst_conv
  by (rule field_evaluate_oversized field_evaluate_reasoning field_evaluate_total)+

lemma rule_reason_absent:
  assumes "\<not> triggers len width height weight r"
    and "\<And>r'. rule_message F len width height weight r' = s \<Longrightarrow> r' = r"
    and "default_reason \<noteq> s"
  shows "s \<notin> set (if filter (triggers len width height weight) rule_order = [] then [default_reason]
              else map (rule_message F len width height weight)
                     (filter (triggers len width height weight) rule_order))"
  using assms by auto

lemma rule_reason_present:
  assumes "triggers len width height weight r"
  shows "rule_message F len width height weight r
           \<in> set (if filter (triggers len width height weight) rule_order = [] then [default_reason]
              else map (rule_message F len width height weight)
                     (filter (triggers len width height weight) rule_order))"
    and "filter (triggers len width height weight) rule_order \<noteq> []"
proof -
  have "r \<in> set rule_order" by (cases r) (simp_all add: rule_order_def)
  then have "r \<in> set (filter (triggers len width height weight) rule_order)"
    using assms by simp
  then show "filter (triggers len width height weight) rule_order \<noteq> []"
    by (auto simp add: filter_empty_conv)
  then show "rule_message F len width height weight r
           \<in> set (if filter (triggers len width height weight) rule_order = [] then [default_reason]
              else map (rule_message F len width height weight)
                     (filter (triggers len width height weight) rule_order))"
    using \<open>r \<in> set (filter (triggers len width height weight) rule_order)\<close> by simp
qed

text \<open>
  C2. The boundary of the weight rule is inclusive. For every input whose fields convert:
  a weight equal to 5000 makes \<open>oversized\<close> true and puts the reason
  \<open>Weight (<weight>) is >= 5000 grams\<close> first in \<open>reasoning\<close>; a weight below 5000 (the
  witness takes the float 4999.999) leaves \<open>reasoning\<close> without any weight reason.
\<close>

theorem weight_boundary_inclusive:
  assumes "raw_fields content = Inr raws"
    and "coerce F raws = Inr (len, width, height, weight)"
  shows "\<exists>rs. field (fst (check_package_payload F (Inr content) logs)) ''reasoning''
              = Some (PyList (map PyStr rs)) \<and>
           (float_eq weight 5000 \<longrightarrow>
              field (fst (check_package_payload F (Inr content) logs)) ''oversized''
                = Some (PyBool True) \<and>
              (\<exists>rest. rs = (''Weight ('' @ float_str F weight @ '') is >= 5000 grams'') # rest)) \<and>
           (float_lt weight 5000 \<longrightarrow>
              (\<forall>x. ''Weight ('' @ x @ '') is >= 5000 grams'' \<notin> set rs))"
proof -
  let ?fired = "filter (triggers len width height weight) rule_order"
  let ?rs = "if ?fired = [] then [default_reason]
             else map (rule_message F len width height weight) ?fired"
  note pf = payload_fields[OF assms, of logs]
  have A: "?fired \<noteq> [] \<and>
      (\<exists>rest. ?rs = (''Weight ('' @ float_str F weight @ '') is >= 5000 grams'') # rest)"
    if "float_eq weight 5000"
    using float_eq_ge[OF that] by (simp add: fired_unfold)
  have B: "''Weight ('' @ x @ '') is >= 5000 grams'' \<notin> set ?rs" if "float_lt weight 5000" for x
  proof (rule rule_reason_absent[where r = WeightRule])
    show "\<not> triggers len width height weight WeightRule"
      using float_lt_not_ge[OF that] by simp
  qed (erule message_of_rule, rule default_is_no_rule_message)
  show ?thesis
    using pf(1,2) A B by (intro exI[of _ ?rs]) (simp only: simp_thms, blast)
qed

lemma raw_fields_dict:
  assumes "py_get content ''arguments'' (PyDict []) = Inr (PyDict kvs)"
  shows "raw_fields content =
     Inr (raw_field kvs ''length'', raw_field kvs ''width'', raw_field kvs ''height'',
          raw_field kvs ''weight'')"
  using assms by (simp add: raw_fields_def py_get_def raw_field_def)

lemma py_get_arguments:
  "map_of items ''arguments'' = Some (PyDict kvs) \<Longrightarrow>
     py_get (PyDict items) ''arguments'' (PyDict []) = Inr (PyDict kvs)"
  by (simp add: py_get_def)

theorem weight_boundary_inclusive_witness:
  "\<forall>F. float_eq (Finite 5000) 5000 \<and>
       field (fst (check_package_payload F
           (Inr (PyDict [(''arguments'', PyDict [(''weight'', PyInt 5000)])])) []))
         ''oversized'' = Some (PyBool True) \<and>
       (\<exists>rest. field (fst (check_package_payload F
           (Inr (PyDict [(''arguments'', PyDict [(''weight'', PyInt 5000)])])) []))
         ''reasoning''
         = Some (PyList (map PyStr
             ((''Weight ('' @ float_str F (Finite 5000) @ '') is >= 5000 grams'') # rest)))) \<and>
       float_lt (Finite (1374389259842093 / 274877906944)) 5000 \<and>
       (\<exists>rs. field (fst (check_package_payload F
           (Inr (PyDict [(''arguments'',
              PyDict [(''weight'', PyFloat (Finite (1374389259842093 / 274877906944)))])])) []))
         ''reasoning'' = Some (PyList (map PyStr rs)) \<and>
         (\<forall>x. ''Weight ('' @ x @ '') is >= 5000 grams'' \<notin> set rs))"
proof
  fix F :: pyfloat_lib
  let ?w = "Finite (1374389259842093 / 274877906944)"
  let ?c1 = "PyDict [(''arguments'', PyDict [(''weight'', PyInt 5000)])]"
  let ?c2 = "PyDict [(''arguments'', PyDict [(''weight'', PyFloat ?w)])]"
  have r1: "raw_fields ?c1 = Inr (PyInt 0, PyInt 0, PyInt 0, PyInt 5000)"
    by (simp add: raw_fields_def py_get_def)
  have c1: "coerce F (PyInt 0, PyInt 0, PyInt 0, PyInt 5000)
      = Inr (Finite 0, Finite 0, Finite 0, Finite 5000)"
    by (simp add: coerce_def float_of_int_numeral float_of_int_zero)
  have r2: "raw_fields ?c2 = Inr (PyInt 0, PyInt 0, PyInt 0, PyFloat ?w)"
    by (simp add: raw_fields_def py_get_def)
  have c2: "coerce F (PyInt 0, PyInt 0, PyInt 0, PyFloat ?w)
      = Inr (Finite 0, Finite 0, Finite 0, ?w)"
    by (simp add: coerce_def float_of_int_zero)
  have e: "float_eq (Finite 5000) 5000" by simp
  have l: "float_lt ?w 5000" by simp
  show "float_eq (Finite 5000) 5000 \<and>
       field (fst (check_package_payload F (Inr ?c1) [])) ''oversized'' = Some (PyBool True) \<and>
       (\<exists>rest. field (fst (check_package_payload F (Inr ?c1) [])) ''reasoning''
         = Some (PyList (map PyStr
             ((''Weight ('' @ float_str F (Finite 5000) @ '') is >= 5000 grams'') # rest)))) \<and>
       float_lt ?w 5000 \<and>
       (\<exists>rs. field (fst (check_package_payload F (Inr ?c2) [])) ''reasoning''
            = Some (PyList (map PyStr rs)) \<and>
         (\<forall>x. ''Weight ('' @ x @ '') is >= 5000 grams'' \<notin> set rs))"
    using weight_boundary_inclusive[OF r1 c1, of "[]"] weight_boundary_inclusive[OF r2 c2, of "[]"]
      e l
    by blast
qed

lemma round64_dyadic:
  assumes m: "\<bar>m\<bar> < 2 ^ 53" and k: "- 1074 \<le> k"
    and fin: "\<bar>of_int m * 2 powi k\<bar> < (2 powi 1024 :: rat)"
  shows "round64 (of_int m * 2 powi k) = Finite (of_int m * 2 powi k)"
proof (cases "m = 0")
  case True
  then show ?thesis by (simp add: round64_def)
next
  case False
  define q :: rat where "q = of_int m * 2 powi k"
  define a :: rat where "a = \<bar>q\<bar>"
  define e where "e = max (ilog2 a) (- 1022)"
  define u :: rat where "u = 2 powi (e - 52)"
  have a_eq: "a = of_int \<bar>m\<bar> * 2 powi k" by (simp add: a_def q_def abs_mult)
  have apos: "0 < a" using False by (simp add: a_eq)
  have q0: "q \<noteq> 0" using apos by (auto simp: a_def)
  have "of_int \<bar>m\<bar> < (of_int (2 ^ 53) :: rat)" using m by (simp only: of_int_less_iff)
  then have "a < 2 powi 53 * 2 powi k" by (simp add: a_eq)
  also have "\<dots> = (2::rat) powi (53 + k)" by (simp add: power_int_add)
  finally have "ilog2 a < 53 + k" using ilog2_range(2)[OF apos _] ilog2_bounds(1)[OF apos] by blast
  then have e: "e \<le> k + 52" using k by (simp add: e_def)
  have u: "2 powi k / u = 2 ^ nat (k + 52 - e)"
  proof -
    have "2 powi k / u = (2::rat) powi (k + 52 - e)"
      by (simp add: u_def power_int_diff[symmetric] algebra_simps)
    also have "\<dots> = 2 ^ nat (k + 52 - e)" using e by (simp add: power_int_def)
    finally show ?thesis .
  qed
  have "a / u = of_int \<bar>m\<bar> * (2 powi k / u)" by (simp add: a_eq)
  also have "\<dots> = of_int (\<bar>m\<bar> * 2 ^ nat (k + 52 - e))" by (simp add: u)
  finally have au: "a / u = of_int (\<bar>m\<bar> * 2 ^ nat (k + 52 - e))" .
  have upos: "u \<noteq> 0" by (simp add: u_def)
  have r: "of_int (round_half_even (a / u)) * u = a"
    unfolding au round_half_even_of_int unfolding au[symmetric] using upos by simp
  have big: "\<not> 2 powi 1024 \<le> a" using fin by (simp add: a_def q_def)
  have "round64 q = Finite (if 0 < q then a else - a)"
    using q0 apos big r
    by (simp add: round64_def Let_def a_def[symmetric] e_def[symmetric] u_def[symmetric])
  also have "(if 0 < q then a else - a) = q" by (simp add: a_def)
  finally show ?thesis by (simp add: q_def)
qed

lemma round64_binary_fraction:
  assumes m: "\<bar>m\<bar> < 2 ^ 53" and n: "n \<le> 1074"
  shows "round64 (of_int m / 2 ^ n) = Finite (of_int m / 2 ^ n)"
proof -
  have eq: "(of_int m * 2 powi (- int n) :: rat) = of_int m / 2 ^ n"
    by (simp add: power_int_def field_simps)
  have "\<bar>of_int m / 2 ^ n :: rat\<bar> \<le> \<bar>of_int m\<bar>"
    by (simp add: abs_divide divide_le_eq mult_le_cancel_left1)
  also have "\<dots> < of_int (2 ^ 53)" using m by (simp only: of_int_abs[symmetric] of_int_less_iff)
  also have "\<dots> \<le> (2 powi 1024 :: rat)"
    using power_int_increasing[of 53 1024 "2::rat"] by simp
  finally have "\<bar>of_int m * 2 powi (- int n)\<bar> < (2 powi 1024 :: rat)" by (simp only: eq)
  have "- 1074 \<le> - int n" using n by simp
  from round64_dyadic[OF m this \<open>\<bar>of_int m * 2 powi (- int n)\<bar> < (2 powi 1024 :: rat)\<close>] show ?thesis by (simp only: eq)
qed

text \<open>
  C3. The boundaries of the dimension rules and of the total are exclusive. For every input
  whose fields convert: a length, width or height equal to 60 puts no reason of that rule in
  \<open>reasoning\<close>, a value above 60 puts its reason there and makes \<open>oversized\<close> true; a sum of
  the dimensions equal to 150 puts no total reason in \<open>reasoning\<close>, a sum above 150 does and
  makes \<open>oversized\<close> true. The sum is the one the program computes,
  \<open>(length + width) + height\<close> in float arithmetic.
\<close>

theorem dimension_boundaries_exclusive:
  assumes "raw_fields content = Inr raws"
    and "coerce F raws = Inr (len, width, height, weight)"
  shows "\<exists>rs. field (fst (check_package_payload F (Inr content) logs)) ''reasoning''
              = Some (PyList (map PyStr rs)) \<and>
           (float_eq len 60 \<longrightarrow> (\<forall>x. ''Length ('' @ x @ '') is > 60 inches'' \<notin> set rs)) \<and>
           (float_gt len 60 \<longrightarrow>
              ''Length ('' @ float_str F len @ '') is > 60 inches'' \<in> set rs \<and>
              field (fst (check_package_payload F (Inr content) logs)) ''oversized''
                = Some (PyBool True)) \<and>
           (float_eq width 60 \<longrightarrow> (\<forall>x. ''Width ('' @ x @ '') is > 60 inches'' \<notin> set rs)) \<and>
           (float_gt width 60 \<longrightarrow>
              ''Width ('' @ float_str F width @ '') is > 60 inches'' \<in> set rs \<and>
              field (fst (check_package_payload F (Inr content) logs)) ''oversized''
                = Some (PyBool True)) \<and>
           (float_eq height 60 \<longrightarrow> (\<forall>x. ''Height ('' @ x @ '') is > 60 inches'' \<notin> set rs)) \<and>
           (float_gt height 60 \<longrightarrow>
              ''Height ('' @ float_str F height @ '') is > 60 inches'' \<in> set rs \<and>
              field (fst (check_package_payload F (Inr content) logs)) ''oversized''
                = Some (PyBool True)) \<and>
           (float_eq (fadd (fadd len width) height) 150 \<longrightarrow>
              (\<forall>x. ''Total dimensions ('' @ x @ '') is > 150 inches'' \<notin> set rs)) \<and>
           (float_gt (fadd (fadd len width) height) 150 \<longrightarrow>
              ''Total dimensions ('' @ float_str F (fadd (fadd len width) height)
                @ '') is > 150 inches'' \<in> set rs \<and>
              field (fst (check_package_payload F (Inr content) logs)) ''oversized''
                = Some (PyBool True))"
proof -
  let ?fired = "filter (triggers len width height weight) rule_order"
  let ?rs = "if ?fired = [] then [default_reason]
             else map (rule_message F len width height weight) ?fired"
  let ?p = "fst (check_package_payload F (Inr content) logs)"
  note pf = payload_fields[OF assms, of logs]
  have present: "rule_message F len width height weight r \<in> set ?rs \<and>
      field ?p ''oversized'' = Some (PyBool True)"
    if "triggers len width height weight r" for r
    using rule_reason_present(1)[OF that, of F] rule_reason_present(2)[OF that] pf(1) by simp
  have L0: "''Length ('' @ x @ '') is > 60 inches'' \<notin> set ?rs" if "float_eq len 60" for x
  proof (rule rule_reason_absent[where r = LengthRule])
    show "\<not> triggers len width height weight LengthRule"
      using float_eq_not_gt[OF that] by simp
  qed (erule message_of_rule, rule default_is_no_rule_message)
  have W0: "''Width ('' @ x @ '') is > 60 inches'' \<notin> set ?rs" if "float_eq width 60" for x
  proof (rule rule_reason_absent[where r = WidthRule])
    show "\<not> triggers len width height weight WidthRule"
      using float_eq_not_gt[OF that] by simp
  qed (erule message_of_rule, rule default_is_no_rule_message)
  have H0: "''Height ('' @ x @ '') is > 60 inches'' \<notin> set ?rs" if "float_eq height 60" for x
  proof (rule rule_reason_absent[where r = HeightRule])
    show "\<not> triggers len width height weight HeightRule"
      using float_eq_not_gt[OF that] by simp
  qed (erule message_of_rule, rule default_is_no_rule_message)
  have T0: "''Total dimensions ('' @ x @ '') is > 150 inches'' \<notin> set ?rs"
    if "float_eq (fadd (fadd len width) height) 150" for x
  proof (rule rule_reason_absent[where r = TotalRule])
    show "\<not> triggers len width height weight TotalRule"
      using float_eq_not_gt[OF that] by simp
  qed (erule message_of_rule, rule default_is_no_rule_message)
  have L1: "''Length ('' @ float_str F len @ '') is > 60 inches'' \<in> set ?rs \<and>
      field ?p ''oversized'' = Some (PyBool True)" if "float_gt len 60"
    using present[of LengthRule] that by simp
  have W1: "''Width ('' @ float_str F width @ '') is > 60 inches'' \<in> set ?rs \<and>
      field ?p ''oversized'' = Some (PyBool True)" if "float_gt width 60"
    using present[of WidthRule] that by simp
  have H1: "''Height ('' @ float_str F height @ '') is > 60 inches'' \<in> set ?rs \<and>
      field ?p ''oversized'' = Some (PyBool True)" if "float_gt height 60"
    using present[of HeightRule] that by simp
  have T1: "''Total dimensions ('' @ float_str F (fadd (fadd len width) height)
        @ '') is > 150 inches'' \<in> set ?rs \<and>
      field ?p ''oversized'' = Some (PyBool True)"
    if "float_gt (fadd (fadd len width) height) 150"
    using present[of TotalRule] that by simp
  show ?thesis
    using pf(2) L0 L1 W0 W1 H0 H1 T0 T1 by (intro exI[of _ ?rs]) (simp only: simp_thms, blast)
qed

text \<open>
  C4. For every input whose fields convert, with the weight below 5000, every dimension at
  most 60 and the sum of the dimensions at most 150, \<open>oversized\<close> is false and \<open>reasoning\<close> is
  the one default message. Hence \<open>reasoning\<close> of every successful result has an entry.
\<close>

theorem below_all_thresholds:
  assumes "raw_fields content = Inr raws"
    and "coerce F raws = Inr (len, width, height, weight)"
  shows "(float_lt weight 5000 \<and> float_le len 60 \<and> float_le width 60 \<and> float_le height 60 \<and>
          float_le (fadd (fadd len width) height) 150 \<longrightarrow>
            field (fst (check_package_payload F (Inr content) logs)) ''oversized''
              = Some (PyBool False) \<and>
            field (fst (check_package_payload F (Inr content) logs)) ''reasoning''
              = Some (PyList [PyStr ''Package meets all size and weight requirements''])) \<and>
         (\<exists>r rs. field (fst (check_package_payload F (Inr content) logs)) ''reasoning''
              = Some (PyList (PyStr r # map PyStr rs)))"
proof -
  let ?fired = "filter (triggers len width height weight) rule_order"
  note pf = payload_fields[OF assms, of logs]
  have none: "?fired = []"
    if "float_lt weight 5000" "float_le len 60" "float_le width 60" "float_le height 60"
       "float_le (fadd (fadd len width) height) 150"
    using that by (simp add: fired_unfold float_lt_not_ge float_le_not_gt)
  have nonempty: "\<exists>r rs. (if ?fired = [] then [default_reason]
             else map (rule_message F len width height weight) ?fired) = r # rs"
    by (cases ?fired) simp_all
  then obtain r rs where "(if ?fired = [] then [default_reason]
             else map (rule_message F len width height weight) ?fired) = r # rs" by blast
  with pf(2) have "field (fst (check_package_payload F (Inr content) logs)) ''reasoning''
      = Some (PyList (PyStr r # map PyStr rs))" by simp
  then show ?thesis
    using pf(1,2) none by (auto simp add: default_reason_def)
qed

lemma fadd_exact_examples:
  "fadd (fadd (Finite 60) (Finite 60)) (Finite 30) = Finite 150"
  "fadd (fadd (Finite (101 / 2)) (Finite 50)) (Finite 50) = Finite (301 / 2)"
  "fadd (fadd (Finite 10) (Finite 10)) (Finite 10) = Finite 30"
  using round64_binary_fraction[of 201 1] round64_binary_fraction[of 301 1]
  by (simp_all add: round64_numeral)

theorem dimension_boundaries_exclusive_witness:
  "\<forall>F. float_eq (Finite 60) 60 \<and>
       float_eq (fadd (fadd (Finite 60) (Finite 60)) (Finite 30)) 150 \<and>
       (\<exists>rs. field (fst (check_package_payload F
           (Inr (PyDict [(''arguments'',
              PyDict [(''length'', PyInt 60), (''width'', PyInt 60), (''height'', PyInt 30)])])) []))
          ''reasoning'' = Some (PyList (map PyStr rs)) \<and>
          (\<forall>x. ''Length ('' @ x @ '') is > 60 inches'' \<notin> set rs) \<and>
          (\<forall>x. ''Width ('' @ x @ '') is > 60 inches'' \<notin> set rs) \<and>
          (\<forall>x. ''Total dimensions ('' @ x @ '') is > 150 inches'' \<notin> set rs)) \<and>
       float_gt (Finite (8444390038808035 / 140737488355328)) 60 \<and>
       (\<exists>rs. field (fst (check_package_payload F
           (Inr (PyDict [(''arguments'',
              PyDict [(''height'', PyFloat (Finite (8444390038808035 / 140737488355328)))])])) []))
          ''reasoning'' = Some (PyList (map PyStr rs)) \<and>
          ''Height ('' @ float_str F (Finite (8444390038808035 / 140737488355328))
             @ '') is > 60 inches'' \<in> set rs) \<and>
       float_gt (fadd (fadd (Finite (101 / 2)) (Finite 50)) (Finite 50)) 150 \<and>
       (\<exists>rs. field (fst (check_package_payload F
           (Inr (PyDict [(''arguments'',
              PyDict [(''length'', PyFloat (Finite (101 / 2))), (''width'', PyInt 50),
                      (''height'', PyInt 50)])])) []))
          ''reasoning'' = Some (PyList (map PyStr rs)) \<and>
          ''Total dimensions ('' @ float_str F (Finite (301 / 2)) @ '') is > 150 inches'' \<in> set rs) \<and>
       field (fst (check_package_payload F
           (Inr (PyDict [(''arguments'',
              PyDict [(''length'', PyFloat (Finite (101 / 2))), (''width'', PyInt 50),
                      (''height'', PyInt 50)])])) []))
          ''oversized'' = Some (PyBool True)"
proof
  fix F :: pyfloat_lib
  let ?h = "Finite (8444390038808035 / 140737488355328)"
  let ?c1 = "PyDict [(''arguments'',
      PyDict [(''length'', PyInt 60), (''width'', PyInt 60), (''height'', PyInt 30)])]"
  let ?c2 = "PyDict [(''arguments'', PyDict [(''height'', PyFloat ?h)])]"
  let ?c3 = "PyDict [(''arguments'',
      PyDict [(''length'', PyFloat (Finite (101 / 2))), (''width'', PyInt 50),
              (''height'', PyInt 50)])]"
  have r1: "raw_fields ?c1 = Inr (PyInt 60, PyInt 60, PyInt 30, PyInt 0)"
    by (simp add: raw_fields_def py_get_def)
  have c1: "coerce F (PyInt 60, PyInt 60, PyInt 30, PyInt 0)
      = Inr (Finite 60, Finite 60, Finite 30, Finite 0)"
    by (simp add: coerce_def float_of_int_numeral float_of_int_zero)
  have r2: "raw_fields ?c2 = Inr (PyInt 0, PyInt 0, PyFloat ?h, PyInt 0)"
    by (simp add: raw_fields_def py_get_def)
  have c2: "coerce F (PyInt 0, PyInt 0, PyFloat ?h, PyInt 0)
      = Inr (Finite 0, Finite 0, ?h, Finite 0)"
    by (simp add: coerce_def float_of_int_zero)
  have r3: "raw_fields ?c3 = Inr (PyFloat (Finite (101 / 2)), PyInt 50, PyInt 50, PyInt 0)"
    by (simp add: raw_fields_def py_get_def)
  have c3: "coerce F (PyFloat (Finite (101 / 2)), PyInt 50, PyInt 50, PyInt 0)
      = Inr (Finite (101 / 2), Finite 50, Finite 50, Finite 0)"
    by (simp add: coerce_def float_of_int_numeral float_of_int_zero)
  have e1: "float_eq (Finite 60) 60" by simp
  have e2: "float_eq (fadd (fadd (Finite 60) (Finite 60)) (Finite 30)) 150"
    by (simp only: fadd_exact_examples) simp
  have g1: "float_gt ?h 60" by simp
  have t3: "fadd (fadd (Finite (101 / 2)) (Finite 50)) (Finite 50) = Finite (301 / 2)"
    by (rule fadd_exact_examples)
  have g2: "float_gt (fadd (fadd (Finite (101 / 2)) (Finite 50)) (Finite 50)) 150"
    by (simp only: t3) simp
  from dimension_boundaries_exclusive[OF r1 c1, of "[]"] e1 e2
  have A: "\<exists>rs. field (fst (check_package_payload F (Inr ?c1) [])) ''reasoning''
            = Some (PyList (map PyStr rs)) \<and>
          (\<forall>x. ''Length ('' @ x @ '') is > 60 inches'' \<notin> set rs) \<and>
          (\<forall>x. ''Width ('' @ x @ '') is > 60 inches'' \<notin> set rs) \<and>
          (\<forall>x. ''Total dimensions ('' @ x @ '') is > 150 inches'' \<notin> set rs)"
    by blast
  from dimension_boundaries_exclusive[OF r2 c2, of "[]"] g1
  have B: "\<exists>rs. field (fst (check_package_payload F (Inr ?c2) [])) ''reasoning''
            = Some (PyList (map PyStr rs)) \<and>
          ''Height ('' @ float_str F ?h @ '') is > 60 inches'' \<in> set rs"
    by blast
  from dimension_boundaries_exclusive[OF r3 c3, of "[]"] g2
  have C: "(\<exists>rs. field (fst (check_package_payload F (Inr ?c3) [])) ''reasoning''
            = Some (PyList (map PyStr rs)) \<and>
          ''Total dimensions ('' @ float_str F (Finite (301 / 2)) @ '') is > 150 inches'' \<in> set rs) \<and>
       field (fst (check_package_payload F (Inr ?c3) [])) ''oversized'' = Some (PyBool True)"
    unfolding t3 by blast
  show "float_eq (Finite 60) 60 \<and>
       float_eq (fadd (fadd (Finite 60) (Finite 60)) (Finite 30)) 150 \<and>
       (\<exists>rs. field (fst (check_package_payload F (Inr ?c1) [])) ''reasoning''
            = Some (PyList (map PyStr rs)) \<and>
          (\<forall>x. ''Length ('' @ x @ '') is > 60 inches'' \<notin> set rs) \<and>
          (\<forall>x. ''Width ('' @ x @ '') is > 60 inches'' \<notin> set rs) \<and>
          (\<forall>x. ''Total dimensions ('' @ x @ '') is > 150 inches'' \<notin> set rs)) \<and>
       float_gt ?h 60 \<and>
       (\<exists>rs. field (fst (check_package_payload F (Inr ?c2) [])) ''reasoning''
            = Some (PyList (map PyStr rs)) \<and>
          ''Height ('' @ float_str F ?h @ '') is > 60 inches'' \<in> set rs) \<and>
       float_gt (fadd (fadd (Finite (101 / 2)) (Finite 50)) (Finite 50)) 150 \<and>
       (\<exists>rs. field (fst (check_package_payload F (Inr ?c3) [])) ''reasoning''
            = Some (PyList (map PyStr rs)) \<and>
          ''Total dimensions ('' @ float_str F (Finite (301 / 2)) @ '') is > 150 inches'' \<in> set rs) \<and>
       field (fst (check_package_payload F (Inr ?c3) [])) ''oversized'' = Some (PyBool True)"
    using e1 e2 A g1 B g2 C by (intro conjI) blast+
qed

theorem below_all_thresholds_witness:
  "\<forall>F. float_lt (Finite 10) 5000 \<and> float_le (Finite 10) 60 \<and>
       float_le (fadd (fadd (Finite 10) (Finite 10)) (Finite 10)) 150 \<and>
       field (fst (check_package_payload F
           (Inr (PyDict [(''arguments'',
              PyDict [(''length'', PyInt 10), (''width'', PyInt 10), (''height'', PyInt 10),
                      (''weight'', PyInt 10)])])) []))
          ''oversized'' = Some (PyBool False) \<and>
       field (fst (check_package_payload F
           (Inr (PyDict [(''arguments'',
              PyDict [(''length'', PyInt 10), (''width'', PyInt 10), (''height'', PyInt 10),
                      (''weight'', PyInt 10)])])) []))
          ''reasoning'' = Some (PyList [PyStr ''Package meets all size and weight requirements''])"
proof
  fix F :: pyfloat_lib
  let ?c = "PyDict [(''arguments'',
      PyDict [(''length'', PyInt 10), (''width'', PyInt 10), (''height'', PyInt 10),
              (''weight'', PyInt 10)])]"
  have r: "raw_fields ?c = Inr (PyInt 10, PyInt 10, PyInt 10, PyInt 10)"
    by (simp add: raw_fields_def py_get_def)
  have c: "coerce F (PyInt 10, PyInt 10, PyInt 10, PyInt 10)
      = Inr (Finite 10, Finite 10, Finite 10, Finite 10)"
    by (simp add: coerce_def float_of_int_numeral)
  have h: "float_lt (Finite 10) 5000" "float_le (Finite 10) 60"
    "float_le (fadd (fadd (Finite 10) (Finite 10)) (Finite 10)) 150"
    by (simp_all only: fadd_exact_examples) simp_all
  show "float_lt (Finite 10) 5000 \<and> float_le (Finite 10) 60 \<and>
       float_le (fadd (fadd (Finite 10) (Finite 10)) (Finite 10)) 150 \<and>
       field (fst (check_package_payload F (Inr ?c) [])) ''oversized'' = Some (PyBool False) \<and>
       field (fst (check_package_payload F (Inr ?c) [])) ''reasoning''
         = Some (PyList [PyStr ''Package meets all size and weight requirements''])"
    using below_all_thresholds[OF r c, of "[]"] h by blast
qed

lemma to_float_default: "to_float F (PyInt 0) = Inr (Finite 0)"
  by (simp add: float_of_int_zero)

lemma fadd_small_ints:
  assumes "\<bar>a\<bar> < 2 ^ 51" and "\<bar>b\<bar> < 2 ^ 51" and "\<bar>c\<bar> < 2 ^ 51"
  shows "fadd (fadd (Finite (of_int a)) (Finite (of_int b))) (Finite (of_int c))
     = Finite (of_int (a + b + c))"
proof -
  have "\<bar>a + b\<bar> < 2 ^ 53" using assms by simp
  from round64_of_int[OF this]
  have 1: "fadd (Finite (of_int a)) (Finite (of_int b)) = Finite (of_int (a + b))" by simp
  have "\<bar>a + b + c\<bar> < 2 ^ 53" using assms by simp
  from round64_of_int[OF this] show ?thesis unfolding 1 by simp
qed



lemma binary64_of_int: "\<bar>n\<bar> < 2 ^ 53 \<Longrightarrow> binary64 (of_int n)"
proof -
  assume n: "\<bar>n\<bar> < 2 ^ 53"
  then have "(of_int \<bar>n\<bar> :: rat) < of_int (2 ^ 53)" by (simp only: of_int_less_iff)
  also have "\<dots> \<le> (2 powi 1024 :: rat)"
    using power_int_increasing[of 53 1024 "2::rat"] by simp
  finally have "\<bar>of_int n :: rat\<bar> < 2 powi 1024" by simp
  with n show ?thesis
    unfolding binary64_def by (intro exI[of _ n] exI[of _ 0]) simp
qed











subsection \<open>Failing conversions\<close>

lemma to_float_classes:
  assumes "to_float F v = Inl (cls, msg)"
  shows "cls = ValueError \<or> cls = TypeError \<or> cls = OverflowError"
  using assms
  by (cases v) (auto simp: float_of_int_def split: pyfloat.splits option.splits)

lemma to_float_trichotomy:
  "(\<exists>x. to_float F v = Inr x) \<or> guarded_failure (to_float F v) \<or> overflows (to_float F v)"
proof (cases "to_float F v")
  case (Inl e)
  obtain cls msg where "e = (cls, msg)" by (cases e)
  with Inl to_float_classes[of F v cls msg] show ?thesis
    by (auto simp: guarded_failure_def overflows_def)
next
  case (Inr x)
  then show ?thesis by simp
qed

lemma guarded_not_overflows: "guarded_failure r \<Longrightarrow> \<not> overflows r"
  by (auto simp: guarded_failure_def overflows_def split: sum.splits)

text \<open>
  When the first field that fails to convert fails with a \<open>ValueError\<close> or a \<open>TypeError\<close>,
  so does the block of the four conversions.
\<close>

lemma coerce_guarded:
  assumes i: "i < 4"
    and g: "guarded_failure (to_float F ([r0, r1, r2, r3] ! i))"
    and o: "\<forall>j<i. \<not> overflows (to_float F ([r0, r1, r2, r3] ! j))"
  shows "guarded_failure (coerce F (r0, r1, r2, r3))"
proof -
  have o0: "\<not> overflows (to_float F r0)"
    using o g guarded_not_overflows[OF g] by (cases "i = 0") (auto dest: spec[of _ 0])
  have o1: "\<not> overflows (to_float F r1)" if "1 \<le> i"
    using o g guarded_not_overflows[OF g] that by (cases "i = 1") (auto dest: spec[of _ 1])
  have o2: "\<not> overflows (to_float F r2)" if "2 \<le> i"
    using o g guarded_not_overflows[OF g] that by (cases "i = 2") (auto dest: spec[of _ 2])
  consider "i = 0" | "i = 1" | "i = 2" | "i = 3" using i by linarith
  then show ?thesis
  proof cases
    case 1
    with g show ?thesis
      by (auto simp: coerce_def guarded_failure_def split: sum.splits)
  next
    case 2
    with g o0 to_float_trichotomy[of F r0] show ?thesis
      by (auto simp: coerce_def guarded_failure_def overflows_def split: sum.splits)
  next
    case 3
    with g o0 o1 to_float_trichotomy[of F r0] to_float_trichotomy[of F r1] show ?thesis
      by (auto simp: coerce_def guarded_failure_def overflows_def split: sum.splits)
  next
    case 4
    with g o0 o1 o2 to_float_trichotomy[of F r0] to_float_trichotomy[of F r1]
      to_float_trichotomy[of F r2] show ?thesis
      by (auto simp: coerce_def guarded_failure_def overflows_def split: sum.splits)
  qed
qed

lemma payload_guarded:
  assumes "raw_fields content = Inr raws"
    and "guarded_failure (coerce F raws)"
  shows "check_package_payload F (Inr content) logs = (error_payload non_numeric_msg, logs)"
  using assms
  by (auto simp: check_package_payload_def try_body_def guarded_failure_def split: sum.splits)

lemma payload_overflow:
  assumes "raw_fields content = Inr raws"
    and "coerce F raws = Inl (OverflowError, msg)"
  shows "check_package_payload F (Inr content) logs =
     (error_payload (''Error processing package check: '' @ msg),
      logs @ [LogError (''Error checking package: '' @ msg)])"
  using assms
  by (simp add: check_package_payload_def try_body_def handle_def)

lemma error_payload_fields:
  "keys (error_payload msg) = [''oversized'', ''error'']"
  "field (error_payload msg) ''oversized'' = Some (PyBool False)"
  "field (error_payload msg) ''error'' = Some (PyStr msg)"
  "is_evaluation_error (error_payload msg)"
  "\<not> is_evaluation_result (error_payload msg)"
  by (simp_all add: error_payload_def keys_def field_def is_evaluation_error_def
      is_evaluation_result_def result_keys_def)

lemma to_float_huge:
  "to_float F (PyInt huge_int) = Inl (OverflowError, ''int too large to convert to float'')"
proof -
  have "(2::int) ^ 1024 \<le> \<bar>huge_int\<bar>" by (simp add: huge_int_def)
  from float_of_int_overflow[OF this] show ?thesis by simp
qed

text \<open>
  C5, as the code has it. The four conversions run in the order length, width, height,
  weight, and only \<open>ValueError\<close> and \<open>TypeError\<close> are caught at line 73. If a field fails
  with one of the two (a string that is no number, \<open>null\<close>, a list, an object) and no field
  before it raises \<open>OverflowError\<close> (an integer of magnitude \<open>2\<^sup>1\<^sup>0\<^sup>2\<^sup>4 - 2\<^sup>9\<^sup>7\<^sup>0\<close> or more,
  by \<open>to_float_overflows_iff\<close>), the call returns the
  error \<open>Invalid input: All dimensions and weight must be numeric values.\<close> with
  \<open>oversized\<close> false, leaves the log as it was, and returns no result.

  As stated, for any other three fields, the claim fails: with the length \<open>10\<^sup>4\<^sup>0\<^sup>0\<close> and a
  weight that is a list, \<open>float(length)\<close> raises \<open>OverflowError\<close> before the weight is
  looked at, and the handler of line 126 answers
  \<open>Error processing package check: int too large to convert to float\<close>.
\<close>

theorem non_numeric_field_error:
  assumes "raw_fields content = Inr (r0, r1, r2, r3)"
    and "i < 4"
    and "guarded_failure (to_float F ([r0, r1, r2, r3] ! i))"
    and "\<forall>j<i. \<not> overflows (to_float F ([r0, r1, r2, r3] ! j))"
  shows "check_package_payload F (Inr content) logs
           = (PyDict [(''oversized'', PyBool False),
                      (''error'', PyStr
                         ''Invalid input: All dimensions and weight must be numeric values.'')],
              logs) \<and>
         \<not> is_evaluation_result (fst (check_package_payload F (Inr content) logs))"
  unfolding payload_guarded[OF assms(1) coerce_guarded[OF assms(2-4)]] fst_conv
  by (simp add: error_payload_fields) (simp add: error_payload_def non_numeric_msg_def)

theorem non_numeric_field_error_witness:
  "\<forall>F. raw_fields (PyDict [(''arguments'',
            PyDict [(''length'', PyInt 10), (''weight'', PyList [])])])
         = Inr (PyInt 10, PyInt 0, PyInt 0, PyList []) \<and>
       guarded_failure (to_float F ([PyInt 10, PyInt 0, PyInt 0, PyList []] ! 3)) \<and>
       \<not> overflows (to_float F (PyInt 10)) \<and> \<not> overflows (to_float F (PyInt 0)) \<and>
       check_package_payload F (Inr (PyDict [(''arguments'',
            PyDict [(''length'', PyInt 10), (''weight'', PyList [])])])) []
         = (PyDict [(''oversized'', PyBool False),
                    (''error'', PyStr
                       ''Invalid input: All dimensions and weight must be numeric values.'')],
            [])"
proof
  fix F :: pyfloat_lib
  let ?c = "PyDict [(''arguments'', PyDict [(''length'', PyInt 10), (''weight'', PyList [])])]"
  have r: "raw_fields ?c = Inr (PyInt 10, PyInt 0, PyInt 0, PyList [])"
    by (simp add: raw_fields_def py_get_def)
  have g: "guarded_failure (to_float F ([PyInt 10, PyInt 0, PyInt 0, PyList []] ! 3))"
    by (simp add: guarded_failure_def)
  have o10: "\<not> overflows (to_float F (PyInt 10))"
    by (simp add: overflows_def float_of_int_numeral)
  have o0: "\<not> overflows (to_float F (PyInt 0))"
    by (simp add: overflows_def float_of_int_zero)
  have o: "\<forall>j<3. \<not> overflows (to_float F ([PyInt 10, PyInt 0, PyInt 0, PyList []] ! j))"
  proof (intro allI impI)
    fix j :: nat
    assume "j < 3"
    then consider "j = 0" | "j = 1" | "j = 2" by linarith
    then show "\<not> overflows (to_float F ([PyInt 10, PyInt 0, PyInt 0, PyList []] ! j))"
      using o10 o0 by cases simp_all
  qed
  show "raw_fields ?c = Inr (PyInt 10, PyInt 0, PyInt 0, PyList []) \<and>
       guarded_failure (to_float F ([PyInt 10, PyInt 0, PyInt 0, PyList []] ! 3)) \<and>
       \<not> overflows (to_float F (PyInt 10)) \<and> \<not> overflows (to_float F (PyInt 0)) \<and>
       check_package_payload F (Inr ?c) []
         = (PyDict [(''oversized'', PyBool False),
                    (''error'', PyStr
                       ''Invalid input: All dimensions and weight must be numeric values.'')],
            [])"
    using r g o10 o0 non_numeric_field_error[OF r _ g o, of "[]"] by simp
qed

theorem non_numeric_field_error_counterexample:
  "\<forall>F. raw_fields (PyDict [(''arguments'',
            PyDict [(''length'', PyInt huge_int), (''weight'', PyList [])])])
         = Inr (PyInt huge_int, PyInt 0, PyInt 0, PyList []) \<and>
       guarded_failure (to_float F (PyList [])) \<and>
       fst (check_package_payload F (Inr (PyDict [(''arguments'',
            PyDict [(''length'', PyInt huge_int), (''weight'', PyList [])])])) [])
         = PyDict [(''oversized'', PyBool False),
                   (''error'', PyStr
                      ''Error processing package check: int too large to convert to float'')] \<and>
       fst (check_package_payload F (Inr (PyDict [(''arguments'',
            PyDict [(''length'', PyInt huge_int), (''weight'', PyList [])])])) [])
         \<noteq> PyDict [(''oversized'', PyBool False),
                   (''error'', PyStr
                      ''Invalid input: All dimensions and weight must be numeric values.'')]"
proof
  fix F :: pyfloat_lib
  let ?c = "PyDict [(''arguments'',
      PyDict [(''length'', PyInt huge_int), (''weight'', PyList [])])]"
  have r: "raw_fields ?c = Inr (PyInt huge_int, PyInt 0, PyInt 0, PyList [])"
    by (simp add: raw_fields_def py_get_def)
  have c: "coerce F (PyInt huge_int, PyInt 0, PyInt 0, PyList [])
      = Inl (OverflowError, ''int too large to convert to float'')"
    by (simp only: coerce_def to_float_huge prod.case sum.case)
  have g: "guarded_failure (to_float F (PyList []))"
    by (simp add: guarded_failure_def)
  show "raw_fields ?c = Inr (PyInt huge_int, PyInt 0, PyInt 0, PyList []) \<and>
       guarded_failure (to_float F (PyList [])) \<and>
       fst (check_package_payload F (Inr ?c) [])
         = PyDict [(''oversized'', PyBool False),
                   (''error'', PyStr
                      ''Error processing package check: int too large to convert to float'')] \<and>
       fst (check_package_payload F (Inr ?c) [])
         \<noteq> PyDict [(''oversized'', PyBool False),
                   (''error'', PyStr
                      ''Invalid input: All dimensions and weight must be numeric values.'')]"
    unfolding payload_overflow[OF r c] fst_conv using r g
    by (simp add: error_payload_def)
qed

text \<open>
  C9, as the code has it. If a field of the \<open>arguments\<close> object is \<open>null\<close> and no field
  before it, in the order length, width, height, weight, raises \<open>OverflowError\<close>, then
  \<open>float(None)\<close> raises \<open>TypeError\<close>, the handler of line 73 catches it, and the call returns
  the error \<open>Invalid input: All dimensions and weight must be numeric values.\<close>

  As stated, for every record with a \<open>null\<close> field, the claim fails: with the height
  \<open>10\<^sup>4\<^sup>0\<^sup>0\<close> and the weight \<open>null\<close> the call returns the error of line 130.
\<close>

theorem null_field_error:
  assumes "py_get content ''arguments'' (PyDict []) = Inr (PyDict kvs)"
    and "i < 4"
    and "map_of kvs (field_names ! i) = Some PyNone"
    and "\<forall>j<i. \<not> overflows (to_float F (raw_field kvs (field_names ! j)))"
  shows "check_package_payload F (Inr content) logs
           = (PyDict [(''oversized'', PyBool False),
                      (''error'', PyStr
                         ''Invalid input: All dimensions and weight must be numeric values.'')],
              logs)"
proof -
  let ?rs = "[raw_field kvs ''length'', raw_field kvs ''width'', raw_field kvs ''height'',
      raw_field kvs ''weight'']"
  have nth: "?rs ! j = raw_field kvs (field_names ! j)" if "j < 4" for j
  proof -
    from that consider "j = 0" | "j = 1" | "j = 2" | "j = 3" by linarith
    then show ?thesis by cases (simp_all add: field_names_def)
  qed
  have r: "raw_fields content =
      Inr (raw_field kvs ''length'', raw_field kvs ''width'', raw_field kvs ''height'',
           raw_field kvs ''weight'')"
    by (rule raw_fields_dict[OF assms(1)])
  have "raw_field kvs (field_names ! i) = PyNone"
    using assms(3) by (simp add: raw_field_def)
  then have g: "guarded_failure (to_float F (?rs ! i))"
    using nth[OF assms(2)] by (simp add: guarded_failure_def)
  have o: "\<forall>j<i. \<not> overflows (to_float F (?rs ! j))"
    using assms(2,4) nth by simp
  show ?thesis
    unfolding payload_guarded[OF r coerce_guarded[OF assms(2) g o]]
    by (simp add: error_payload_def non_numeric_msg_def)
qed

theorem null_field_error_witness:
  "\<forall>F. py_get (PyDict [(''arguments'', PyDict [(''length'', PyInt 10), (''width'', PyNone)])])
          ''arguments'' (PyDict [])
         = Inr (PyDict [(''length'', PyInt 10), (''width'', PyNone)]) \<and>
       map_of [(''length'', PyInt 10), (''width'', PyNone)] (field_names ! 1) = Some PyNone \<and>
       \<not> overflows (to_float F
            (raw_field [(''length'', PyInt 10), (''width'', PyNone)] (field_names ! 0))) \<and>
       check_package_payload F
          (Inr (PyDict [(''arguments'', PyDict [(''length'', PyInt 10), (''width'', PyNone)])])) []
         = (PyDict [(''oversized'', PyBool False),
                    (''error'', PyStr
                       ''Invalid input: All dimensions and weight must be numeric values.'')],
            [])"
proof
  fix F :: pyfloat_lib
  let ?kvs = "[(''length'', PyInt 10), (''width'', PyNone)]"
  let ?c = "PyDict [(''arguments'', PyDict ?kvs)]"
  have a: "py_get ?c ''arguments'' (PyDict []) = Inr (PyDict ?kvs)"
    by (simp add: py_get_def)
  have n: "map_of ?kvs (field_names ! 1) = Some PyNone"
    by (simp add: field_names_def)
  have o0: "\<not> overflows (to_float F (raw_field ?kvs (field_names ! 0)))"
    by (simp add: overflows_def raw_field_def field_names_def float_of_int_numeral)
  then have o: "\<forall>j<1. \<not> overflows (to_float F (raw_field ?kvs (field_names ! j)))"
    by simp
  show "py_get ?c ''arguments'' (PyDict []) = Inr (PyDict ?kvs) \<and>
       map_of ?kvs (field_names ! 1) = Some PyNone \<and>
       \<not> overflows (to_float F (raw_field ?kvs (field_names ! 0))) \<and>
       check_package_payload F (Inr ?c) []
         = (PyDict [(''oversized'', PyBool False),
                    (''error'', PyStr
                       ''Invalid input: All dimensions and weight must be numeric values.'')],
            [])"
    using a n o0 null_field_error[OF a _ n o, of "[]"] by simp
qed

theorem null_field_error_counterexample:
  "\<forall>F. map_of [(''height'', PyInt huge_int), (''weight'', PyNone)] ''weight'' = Some PyNone \<and>
       fst (check_package_payload F (Inr (PyDict [(''arguments'',
            PyDict [(''height'', PyInt huge_int), (''weight'', PyNone)])])) [])
         = PyDict [(''oversized'', PyBool False),
                   (''error'', PyStr
                      ''Error processing package check: int too large to convert to float'')] \<and>
       fst (check_package_payload F (Inr (PyDict [(''arguments'',
            PyDict [(''height'', PyInt huge_int), (''weight'', PyNone)])])) [])
         \<noteq> PyDict [(''oversized'', PyBool False),
                   (''error'', PyStr
                      ''Invalid input: All dimensions and weight must be numeric values.'')]"
proof
  fix F :: pyfloat_lib
  let ?c = "PyDict [(''arguments'',
      PyDict [(''height'', PyInt huge_int), (''weight'', PyNone)])]"
  have r: "raw_fields ?c = Inr (PyInt 0, PyInt 0, PyInt huge_int, PyNone)"
    by (simp add: raw_fields_def py_get_def)
  have z: "to_float F (PyInt 0) = Inr (Finite 0)" by (simp add: float_of_int_zero)
  have c: "coerce F (PyInt 0, PyInt 0, PyInt huge_int, PyNone)
      = Inl (OverflowError, ''int too large to convert to float'')"
    by (simp only: coerce_def to_float_huge z prod.case sum.case)
  show "map_of [(''height'', PyInt huge_int), (''weight'', PyNone)] ''weight'' = Some PyNone \<and>
       fst (check_package_payload F (Inr ?c) [])
         = PyDict [(''oversized'', PyBool False),
                   (''error'', PyStr
                      ''Error processing package check: int too large to convert to float'')] \<and>
       fst (check_package_payload F (Inr ?c) [])
         \<noteq> PyDict [(''oversized'', PyBool False),
                   (''error'', PyStr
                      ''Invalid input: All dimensions and weight must be numeric values.'')]"
    unfolding payload_overflow[OF r c] fst_conv
    by (simp add: error_payload_def)
qed

subsection \<open>Errors and the shape of the answer\<close>

lemma payload_handle:
  "check_package_payload F (Inl e) logs = handle e logs"
  by (simp add: check_package_payload_def)








text \<open>The returned dictionary does not depend on the log.\<close>

lemma payload_ignores_log:
  "fst (check_package_payload F loaded logs) = fst (check_package_payload F loaded logs')"
  by (auto simp: check_package_payload_def try_body_def handle_def Let_def
      split: sum.splits prod.splits if_splits)

text \<open>
  C10. The returned string is a function of the input string: two calls on the same
  \<open>context\<close> return the same string, whatever the log held before each call.
\<close>

theorem deterministic_output:
  "fst (check_package_oversized json_loads json_dumps F context logs)
     = fst (check_package_oversized json_loads json_dumps F context logs')"
proof -
  have "fst (check_package_oversized json_loads json_dumps F context l)
      = json_dumps (fst (check_package_payload F (json_loads context) l))" for l
    by (simp add: check_package_oversized_def split: prod.splits)
  then show ?thesis
    using payload_ignores_log[of F "json_loads context" logs logs'] by simp
qed

subsection \<open>Further facts and the examples of the specification\<close>

text \<open>
  On integers below \<open>2\<^sup>5\<^sup>1\<close> in magnitude the float sum is the sum of the integers, and the
  total rule compares that sum with 150.
\<close>

lemma total_rule_on_small_ints:
  assumes "\<bar>a\<bar> < 2 ^ 51" and "\<bar>b\<bar> < 2 ^ 51" and "\<bar>c\<bar> < 2 ^ 51"
  shows "triggers (Finite (of_int a)) (Finite (of_int b)) (Finite (of_int c)) weight TotalRule
     \<longleftrightarrow> 150 < a + b + c"
proof -
  have "float_gt (Finite (of_int (a + b + c))) 150 \<longleftrightarrow> 150 < a + b + c"
    by (simp only: float_gt.simps of_int_less_iff)
  then show ?thesis
    by (simp only: triggers.simps fadd_small_ints[OF assms])
qed

text \<open>The returned string is \<open>json.dumps\<close> of the returned dictionary.\<close>

lemma check_package_oversized_output:
  "check_package_oversized json_loads json_dumps F context logs =
     (json_dumps (fst (check_package_payload F (json_loads context) logs)),
      snd (check_package_payload F (json_loads context) logs))"
  by (simp add: check_package_oversized_def split: prod.splits)

text \<open>The two examples of section 8 of the specification.\<close>

lemma spec_example_oversized:
  "fst (check_package_payload F
     (Inr (PyDict [(''arguments'',
        PyDict [(''length'', PyInt 70), (''width'', PyInt 30), (''height'', PyInt 20),
                (''weight'', PyInt 2000)])])) logs) =
   PyDict
     [(''oversized'', PyBool True),
      (''length'', PyFloat (Finite 70)),
      (''width'', PyFloat (Finite 30)),
      (''height'', PyFloat (Finite 20)),
      (''weight'', PyFloat (Finite 2000)),
      (''total_dimensions'', PyFloat (Finite 120)),
      (''reasoning'',
         PyList [PyStr (''Length ('' @ float_str F (Finite 70) @ '') is > 60 inches'')])]"
proof -
  let ?c = "PyDict [(''arguments'',
      PyDict [(''length'', PyInt 70), (''width'', PyInt 30), (''height'', PyInt 20),
              (''weight'', PyInt 2000)])]"
  have r: "raw_fields ?c = Inr (PyInt 70, PyInt 30, PyInt 20, PyInt 2000)"
    by (simp add: raw_fields_def py_get_def)
  have c: "coerce F (PyInt 70, PyInt 30, PyInt 20, PyInt 2000)
      = Inr (Finite 70, Finite 30, Finite 20, Finite 2000)"
    by (simp add: coerce_def float_of_int_numeral)
  show ?thesis
    unfolding payload_success[OF r c] fst_conv
    by (simp add: evaluate_def check_rules_spec rule_order_def round64_numeral)
qed

lemma spec_example_within_limits:
  "fst (check_package_payload F
     (Inr (PyDict [(''arguments'',
        PyDict [(''length'', PyInt 10), (''width'', PyInt 10), (''height'', PyInt 10),
                (''weight'', PyInt 10)])])) logs) =
   PyDict
     [(''oversized'', PyBool False),
      (''length'', PyFloat (Finite 10)),
      (''width'', PyFloat (Finite 10)),
      (''height'', PyFloat (Finite 10)),
      (''weight'', PyFloat (Finite 10)),
      (''total_dimensions'', PyFloat (Finite 30)),
      (''reasoning'', PyList [PyStr ''Package meets all size and weight requirements''])]"
proof -
  let ?c = "PyDict [(''arguments'',
      PyDict [(''length'', PyInt 10), (''width'', PyInt 10), (''height'', PyInt 10),
              (''weight'', PyInt 10)])]"
  have r: "raw_fields ?c = Inr (PyInt 10, PyInt 10, PyInt 10, PyInt 10)"
    by (simp add: raw_fields_def py_get_def)
  have c: "coerce F (PyInt 10, PyInt 10, PyInt 10, PyInt 10)
      = Inr (Finite 10, Finite 10, Finite 10, Finite 10)"
    by (simp add: coerce_def float_of_int_numeral)
  show ?thesis
    unfolding payload_success[OF r c] fst_conv
    by (simp add: evaluate_def check_rules_spec rule_order_def round64_numeral default_reason_def)
qed

end
